theory Spec2Isabelle
  imports Complex_Main "HOL-Library.Log_Nat"
begin

section \<open>Python values used by the storage monitor\<close>

subsection \<open>Strings\<close>

text \<open>
  A Python \<open>str\<close> is a sequence of Unicode code points. The report mixes CJK text with
  ASCII, and \<open>get_display_width\<close> classifies single code points, so a string is modelled as
  the list of its code points; \<open>ascii\<close> embeds an ASCII literal.
\<close>

type_synonym pystr = "nat list"

definition ascii :: "string \<Rightarrow> pystr" where
  "ascii s = map of_char s"

text \<open>Exceptions that the modelled code can raise.\<close>

datatype py_error = KeyError | OverflowError | ZeroDivisionError

subsection \<open>Floats\<close>

text \<open>
  A Python \<open>float\<close> is an IEEE 754 binary64 value. Finite values are modelled by the
  real number they denote, together with the two infinities; NaN cannot arise from the operations
  the monitor performs (products and quotients with the positive literals 30, 100 and 1024.0).
  The sign of zero is not represented: a negative zero can only arise here when a quotient of a
  negative used-space by a quota underflows.

  \<open>round64\<close> rounds a real number to the nearest binary64 value, ties to even: 53 significant
  bits, the spacing \<open>2^-1074\<close> below \<open>2^-1022\<close>, and an infinity from \<open>2^1024\<close> on.
\<close>

datatype pyfloat = Fin real | PInf | NInf

definition pow2 :: "int \<Rightarrow> real" where
  "pow2 e = (if 0 \<le> e then 2 ^ nat e else 1 / 2 ^ nat (- e))"

definition round_half_even :: "real \<Rightarrow> int" where
  "round_half_even x =
     (let f = \<lfloor>x\<rfloor>; d = x - of_int f
      in if d < 1 / 2 then f else if 1 / 2 < d then f + 1 else if even f then f else f + 1)"

definition floor_log2 :: "real \<Rightarrow> int" where
  \<comment> \<open>for \<open>0 < x\<close>: the \<open>e\<close> with \<open>2^e \<le> x < 2^(e+1)\<close>\<close>
  "floor_log2 x = (if 1 \<le> x then bitlen \<lfloor>x\<rfloor> - 1 else - bitlen (\<lceil>1 / x\<rceil> - 1))"

definition round64 :: "real \<Rightarrow> pyfloat" where
  "round64 x =
     (if x = 0 then Fin 0
      else
        (let e = max (floor_log2 \<bar>x\<bar>) (- 1022);
             q = pow2 (e - 52);
             y = of_int (round_half_even (\<bar>x\<bar> / q)) * q
         in if pow2 1024 \<le> y then (if 0 < x then PInf else NInf)
            else Fin (if 0 < x then y else - y)))"

definition float_of_int :: "int \<Rightarrow> py_error + pyfloat" where
  \<comment> \<open>conversion of an \<open>int\<close> operand; an \<open>int\<close> too large for a float raises\<close>
  "float_of_int n =
     (case round64 (of_int n) of Fin r \<Rightarrow> Inr (Fin r) | _ \<Rightarrow> Inl OverflowError)"

definition int_truediv :: "int \<Rightarrow> int \<Rightarrow> py_error + pyfloat" where
  \<comment> \<open>\<open>a / b\<close> on two \<open>int\<close>s: the correctly rounded quotient\<close>
  "int_truediv a b =
     (if b = 0 then Inl ZeroDivisionError
      else (case round64 (of_int a / of_int b) of
              Fin r \<Rightarrow> Inr (Fin r)
            | _ \<Rightarrow> Inl OverflowError))"

definition float_mul :: "pyfloat \<Rightarrow> real \<Rightarrow> pyfloat" where
  \<comment> \<open>product of a float with a positive literal\<close>
  "float_mul x c = (case x of Fin r \<Rightarrow> round64 (r * c) | PInf \<Rightarrow> PInf | NInf \<Rightarrow> NInf)"

definition float_div :: "pyfloat \<Rightarrow> real \<Rightarrow> pyfloat" where
  \<comment> \<open>quotient of a float by a positive literal\<close>
  "float_div x c = (case x of Fin r \<Rightarrow> round64 (r / c) | PInf \<Rightarrow> PInf | NInf \<Rightarrow> NInf)"

definition float_gt :: "pyfloat \<Rightarrow> real \<Rightarrow> bool" where
  "float_gt x c = (case x of Fin r \<Rightarrow> c < r | PInf \<Rightarrow> True | NInf \<Rightarrow> False)"

definition float_lt :: "pyfloat \<Rightarrow> real \<Rightarrow> bool" where
  "float_lt x c = (case x of Fin r \<Rightarrow> r < c | PInf \<Rightarrow> False | NInf \<Rightarrow> True)"

definition float_to_int :: "pyfloat \<Rightarrow> py_error + int" where
  \<comment> \<open>\<open>int(x)\<close>: truncation towards zero; an infinity raises\<close>
  "float_to_int x =
     (case x of
        Fin r \<Rightarrow> Inr (if 0 \<le> r then \<lfloor>r\<rfloor> else \<lceil>r\<rceil>)
      | _ \<Rightarrow> Inl OverflowError)"

subsection \<open>Number formatting\<close>

fun digits :: "nat \<Rightarrow> pystr" where
  "digits n = (if n < 10 then [48 + n] else digits (n div 10) @ [48 + n mod 10])"

declare digits.simps [simp del]

fun frac_digits :: "nat \<Rightarrow> nat \<Rightarrow> pystr" where
  "frac_digits 0 m = []"
| "frac_digits (Suc d) m = frac_digits d (m div 10) @ [48 + m mod 10]"

definition format_f :: "nat \<Rightarrow> pyfloat \<Rightarrow> pystr" where
  \<comment> \<open>the format specification \<open>.df\<close>: the exact value rounded to \<open>d\<close> decimals, ties to even\<close>
  "format_f d x =
     (case x of
        Fin r \<Rightarrow>
          (let n = nat (round_half_even (\<bar>r\<bar> * 10 ^ d))
           in (if r < 0 then ascii ''-'' else []) @ digits (n div 10 ^ d) @ ascii ''.''
                @ frac_digits d (n mod 10 ^ d))
      | PInf \<Rightarrow> ascii ''inf''
      | NInf \<Rightarrow> ascii ''-inf'')"

section \<open>The monitor\<close>

subsection \<open>\<open>format_size\<close>\<close>

text \<open>
  The loop variable starts as the \<open>int\<close> argument and is a float from the first division on,
  so the first iteration (unit \<open>B\<close>) is written out and \<open>format_size_loop\<close> runs the
  remaining units on a float; its empty case is the statement after the loop.
\<close>

fun format_size_loop :: "string list \<Rightarrow> pyfloat \<Rightarrow> pystr" where
  "format_size_loop [] x = format_f 2 x @ ascii '' PB''"
| "format_size_loop (unit # units) x =
     (if float_lt x 1024 then format_f 2 x @ ascii '' '' @ ascii unit
      else format_size_loop units (float_div x 1024))"

definition format_size :: "int \<Rightarrow> py_error + pystr" where
  "format_size bytes_size =
     (if bytes_size = 0 then Inr (ascii ''0 B'')
      else
        (case float_of_int bytes_size of
           Inl e \<Rightarrow> Inl e
         | Inr x \<Rightarrow>
             if bytes_size < 1024 then Inr (format_f 2 x @ ascii '' '' @ ascii ''B'')
             else Inr (format_size_loop [''KB'', ''MB'', ''GB'', ''TB''] (float_div x 1024))))"

subsection \<open>Records of the remote service\<close>

text \<open>
  A project (an element of the list returned by \<open>get_projects\<close>) is read with
  \<open>project['project_key']\<close>, \<open>project['display_name']\<close> and
  \<open>project['storage_quota_bytes']\<close>. A repository summary is read with \<open>.get\<close>, so each
  of its keys may be absent; \<open>repo['repoKey']\<close> in the details table raises \<open>KeyError\<close>
  when the key is absent. The storage information is read with
  \<open>.get('repositoriesSummaryList', [])\<close>.
\<close>

record project =
  project_key :: pystr
  display_name :: pystr
  storage_quota_bytes :: int

record repo =
  projectKey :: "pystr option"
  repoKey :: "pystr option"
  repoType :: "pystr option"
  usedSpaceInBytes :: "int option"

record storage_info =
  repositoriesSummaryList :: "repo list option"

record usage_info =
  repositories :: "repo list"
  total_used_bytes :: int
  repo_count :: nat

subsection \<open>\<open>calculate_project_usage\<close>\<close>

definition used_space :: "repo \<Rightarrow> int" where
  \<comment> \<open>\<open>repo.get('usedSpaceInBytes', 0)\<close>\<close>
  "used_space r = (case usedSpaceInBytes r of None \<Rightarrow> 0 | Some v \<Rightarrow> v)"

definition calculate_project_usage :: "pystr \<Rightarrow> storage_info \<Rightarrow> usage_info" where
  "calculate_project_usage pkey info =
     (let project_repos =
            filter (\<lambda>r. projectKey r = Some pkey \<and> repoKey r \<noteq> Some (ascii ''TOTAL''))
              (case repositoriesSummaryList info of None \<Rightarrow> [] | Some rs \<Rightarrow> rs);
          used_sum = sum_list (map used_space project_repos)
      in \<lparr>repositories = project_repos, total_used_bytes = used_sum,
          repo_count = length project_repos\<rparr>)"

subsection \<open>\<open>get_project_name_color\<close>\<close>

definition color_red :: pystr where "color_red = 27 # ascii ''[1;31m''"
definition color_yellow :: pystr where "color_yellow = 27 # ascii ''[1;33m''"
definition color_green :: pystr where "color_green = 27 # ascii ''[1;32m''"
definition reset_code :: pystr where "reset_code = 27 # ascii ''[0m''"

definition get_project_name_color :: "pyfloat \<Rightarrow> pystr" where
  "get_project_name_color usage_percent =
     (if float_gt usage_percent 90 then color_red
      else if float_gt usage_percent 80 then color_yellow
      else color_green)"

subsection \<open>\<open>get_display_width\<close> and \<open>pad_string\<close>\<close>

fun display_width_loop :: "pystr \<Rightarrow> int \<Rightarrow> int" where
  "display_width_loop [] width = width"
| "display_width_loop (c # cs) width =
     display_width_loop cs (if 0x4E00 \<le> c \<and> c \<le> 0x9FFF then width + 2 else width + 1)"

definition get_display_width :: "pystr \<Rightarrow> int" where
  "get_display_width text = display_width_loop text 0"

definition spaces :: "int \<Rightarrow> pystr" where
  \<comment> \<open>\<open>' ' * n\<close>\<close>
  "spaces n = replicate (nat n) 0x20"

definition pad_string :: "pystr \<Rightarrow> int \<Rightarrow> pystr \<Rightarrow> pystr" where
  "pad_string text width align =
     (let current_width = get_display_width text
      in if width \<le> current_width then text
         else
           (let padding = width - current_width
            in if align = ascii ''<'' then text @ spaces padding
               else if align = ascii ''>'' then spaces padding @ text
               else
                 (let left_padding = padding div 2;
                      right_padding = padding - left_padding
                  in spaces left_padding @ text @ spaces right_padding)))"

subsection \<open>\<open>print_project_usage\<close>\<close>

text \<open>
  The text literals of the report, as code points: the CJK labels of the source, the two
  warning lines (each starts with a coloured-circle emoji) and the two bar glyphs
  (U+2588 full block, U+2591 light shade).
\<close>

definition text_unlimited :: pystr where
  "text_unlimited = [0x65E0, 0x9650, 0x5236]"
definition label_project_name :: pystr where
  "label_project_name = [0x9879, 0x76EE, 0x540D, 0x79F0, 0x3A, 0x20]"
definition label_quota :: pystr where
  "label_quota = [0x5B58, 0x50A8, 0x9650, 0x5236, 0x3A, 0x20]"
definition label_used :: pystr where
  "label_used = [0x5DF2, 0x7528, 0x7A7A, 0x95F4, 0x3A, 0x20]"
definition label_repo_count :: pystr where
  "label_repo_count = [0x4ED3, 0x5E93, 0x6570, 0x91CF, 0x3A, 0x20]"
definition label_usage_percent :: pystr where
  "label_usage_percent = [0x4F7F, 0x7528, 0x6BD4, 0x4F8B, 0x3A, 0x20]"
definition label_usage_bar :: pystr where
  "label_usage_bar = [0x4F7F, 0x7528, 0x60C5, 0x51B5, 0x3A, 0x20, 0x5B]"
definition warning_critical :: pystr where
  "warning_critical =
     [0x1F534, 0x20, 0x8B66, 0x544A, 0x3A, 0x20, 0x5B58, 0x50A8, 0x4F7F, 0x7528, 0x7387, 0x8D85,
      0x8FC7, 0x39, 0x30, 0x25, 0x21, 0x20, 0x8BF7, 0x7ACB, 0x5373, 0x5904, 0x7406]"
definition warning_attention :: pystr where
  "warning_attention =
     [0x1F7E1, 0x20, 0x6CE8, 0x610F, 0x3A, 0x20, 0x5B58, 0x50A8, 0x4F7F, 0x7528, 0x7387, 0x8D85,
      0x8FC7, 0x38, 0x30, 0x25]"
definition details_title :: pystr where
  "details_title = [0xA, 0x4ED3, 0x5E93, 0x8BE6, 0x60C5, 0x3A]"
definition header_repo_name :: pystr where
  "header_repo_name = [0x4ED3, 0x5E93, 0x540D, 0x79F0]"
definition header_repo_type :: pystr where
  "header_repo_type = [0x7C7B, 0x578B]"
definition header_repo_size :: pystr where
  "header_repo_size = [0x4F7F, 0x7528, 0x7A7A, 0x95F4]"
definition header_repo_share :: pystr where
  "header_repo_share = [0x5360, 0x6BD4]"
definition glyph_filled :: nat where "glyph_filled = 0x2588"
definition glyph_empty :: nat where "glyph_empty = 0x2591"

definition separator_line :: pystr where
  \<comment> \<open>\<open>'=' * 70\<close>\<close>
  "separator_line = replicate 70 0x3D"
definition dash_line :: pystr where
  \<comment> \<open>\<open>'-' * 70\<close>\<close>
  "dash_line = replicate 70 0x2D"

text \<open>
  What a run of printing code leaves behind: the strings printed, one per \<open>print\<close> call, and
  the exception that ended the run, if one did. \<open>then_output\<close> runs a second piece of
  printing code after a first, unless the first raised.
\<close>

type_synonym printed = "pystr list \<times> py_error option"

definition then_output :: "printed \<Rightarrow> printed \<Rightarrow> printed" where
  "then_output a b = (case snd a of None \<Rightarrow> (fst a @ fst b, snd b) | Some e \<Rightarrow> a)"

definition usage_percent_of :: "int \<Rightarrow> int \<Rightarrow> py_error + pyfloat" where
  \<comment> \<open>\<open>(used / storage_quota) * 100\<close>, lines 166 and 218\<close>
  "usage_percent_of used storage_quota =
     (case int_truediv used storage_quota of
        Inl e \<Rightarrow> Inl e
      | Inr d \<Rightarrow> Inr (float_mul d 100))"

definition usage_bar :: "pyfloat \<Rightarrow> py_error + pystr" where
  \<comment> \<open>lines 191 to 193; \<open>bar_length = 30\<close>\<close>
  "usage_bar usage_percent =
     (case float_to_int (float_div (float_mul usage_percent 30) 100) of
        Inl e \<Rightarrow> Inl e
      | Inr filled_length \<Rightarrow>
          Inr (replicate (nat filled_length) glyph_filled
                 @ replicate (nat (30 - filled_length)) glyph_empty))"

definition warning_lines :: "pyfloat \<Rightarrow> pystr list" where
  \<comment> \<open>lines 197 to 200\<close>
  "warning_lines usage_percent =
     (if float_gt usage_percent 90 then [warning_critical]
      else if float_gt usage_percent 80 then [warning_attention]
      else [])"

definition usage_lines :: "int \<Rightarrow> pyfloat \<Rightarrow> printed" where
  \<comment> \<open>lines 188 to 202\<close>
  "usage_lines storage_quota usage_percent =
     (if 0 < storage_quota then
        (let percent_line = label_usage_percent @ format_f 2 usage_percent @ ascii ''%''
         in case usage_bar usage_percent of
              Inl e \<Rightarrow> ([percent_line], Some e)
            | Inr bar \<Rightarrow>
                ([percent_line,
                  label_usage_bar @ bar @ ascii ''] '' @ format_f 1 usage_percent @ ascii ''%'']
                   @ warning_lines usage_percent, None))
      else ([label_usage_percent @ text_unlimited], None))"

definition detail_row :: "int \<Rightarrow> repo \<Rightarrow> py_error + pystr" where
  \<comment> \<open>the body of the loop of lines 215 to 229\<close>
  "detail_row storage_quota r =
     (let repo_used = used_space r
      in case (if 0 < storage_quota then
                 (case usage_percent_of repo_used storage_quota of
                    Inl e \<Rightarrow> Inl e
                  | Inr repo_percent \<Rightarrow> Inr (format_f 2 repo_percent @ ascii ''%''))
               else Inr (ascii ''N/A'')) of
           Inl e \<Rightarrow> Inl e
         | Inr percent_display \<Rightarrow>
             (case repoKey r of
                None \<Rightarrow> Inl KeyError
              | Some key \<Rightarrow>
                  (let repo_name = pad_string key 25 (ascii ''<'');
                       repo_type =
                         pad_string (case repoType r of None \<Rightarrow> ascii ''N/A'' | Some t \<Rightarrow> t) 12
                           (ascii ''<'')
                   in case format_size repo_used of
                        Inl e \<Rightarrow> Inl e
                      | Inr repo_size \<Rightarrow>
                          Inr (repo_name @ ascii '' '' @ repo_type @ ascii '' ''
                                 @ pad_string repo_size 18 (ascii ''<'') @ ascii '' ''
                                 @ pad_string percent_display 12 (ascii ''<'')))))"

fun detail_rows :: "int \<Rightarrow> repo list \<Rightarrow> printed" where
  "detail_rows storage_quota [] = ([], None)"
| "detail_rows storage_quota (r # rs) =
     (case detail_row storage_quota r of
        Inl e \<Rightarrow> ([], Some e)
      | Inr row \<Rightarrow> then_output ([row], None) (detail_rows storage_quota rs))"

definition details_header :: "pystr list" where
  \<comment> \<open>lines 206 to 213\<close>
  "details_header =
     [details_title,
      pad_string header_repo_name 25 (ascii ''<'') @ ascii '' ''
        @ pad_string header_repo_type 12 (ascii ''<'') @ ascii '' ''
        @ pad_string header_repo_size 18 (ascii ''<'') @ ascii '' ''
        @ pad_string header_repo_share 12 (ascii ''<''),
      dash_line]"

definition details_lines :: "int \<Rightarrow> bool \<Rightarrow> repo list \<Rightarrow> printed" where
  \<comment> \<open>lines 205 to 229\<close>
  "details_lines storage_quota show_details repos =
     (if show_details \<and> repos \<noteq> [] then
        then_output (details_header, None) (detail_rows storage_quota repos)
      else ([], None))"

definition percent_and_quota_display :: "int \<Rightarrow> int \<Rightarrow> py_error + pyfloat \<times> pystr" where
  \<comment> \<open>lines 165 to 170: \<open>usage_percent\<close> and \<open>quota_display\<close>\<close>
  "percent_and_quota_display total_used storage_quota =
     (if 0 < storage_quota then
        (case usage_percent_of total_used storage_quota of
           Inl e \<Rightarrow> Inl e
         | Inr usage_percent \<Rightarrow>
             (case format_size storage_quota of
                Inl e \<Rightarrow> Inl e
              | Inr quota_display \<Rightarrow> Inr (usage_percent, quota_display)))
      else Inr (Fin 0, text_unlimited))"

definition print_project_usage :: "project \<Rightarrow> storage_info \<Rightarrow> bool \<Rightarrow> printed" where
  "print_project_usage p info show_details =
     (let pkey = project_key p;
          project_name = display_name p;
          storage_quota = storage_quota_bytes p;
          usage = calculate_project_usage pkey info;
          total_used = total_used_bytes usage
      in case percent_and_quota_display total_used storage_quota of
           Inl e \<Rightarrow> ([], Some e)
         | Inr (usage_percent, quota_display) \<Rightarrow>
             (let color_code = get_project_name_color usage_percent;
                  head =
                    [0xA # separator_line,
                     label_project_name @ color_code @ project_name @ reset_code @ ascii '' (''
                       @ pkey @ ascii '')'',
                     label_quota @ quota_display]
              in case format_size total_used of
                   Inl e \<Rightarrow> (head, Some e)
                 | Inr used \<Rightarrow>
                     then_output
                       (head @ [label_used @ used, label_repo_count @ digits (repo_count usage)],
                        None)
                       (then_output (usage_lines storage_quota usage_percent)
                          (details_lines storage_quota show_details (repositories usage)))))"

subsection \<open>The report of \<open>main\<close>\<close>

text \<open>
  Lines 302 to 334 of \<open>main\<close>, after the projects and the storage information have been
  fetched. \<open>project_name\<close> is the optional positional argument; the test
  \<open>if args.project_name:\<close> takes an absent and an empty name alike for no selection.
  When no project matches, the source prints the requested name within the not-found message,
  prints \<open>[p['project_key'] for p in projects]\<close> (a list, in Python's list notation) and
  exits with status 1: \<open>NotFound\<close> carries the name and that list.
\<close>

datatype main_result = Report printed | NotFound pystr "pystr list"

fun find_project :: "project list \<Rightarrow> pystr \<Rightarrow> project option" where
  \<comment> \<open>the loop of lines 304 to 308\<close>
  "find_project [] name = None"
| "find_project (p # ps) name =
     (if project_key p = name \<or> display_name p = name then Some p
      else find_project ps name)"

definition title_project_list :: pystr where
  "title_project_list = [0x9879, 0x76EE, 0x5217, 0x8868, 0x3A, 0xA]"
definition title_summary :: pystr where
  "title_summary = [0x6C47, 0x603B, 0x4FE1, 0x606F, 0x3A]"
definition label_total_projects :: pystr where
  "label_total_projects = [0x603B, 0x9879, 0x76EE, 0x6570, 0x3A, 0x20]"
definition label_limited :: pystr where
  "label_limited = [0x6709, 0x9650, 0x5236, 0x9879, 0x76EE, 0x3A, 0x20]"
definition label_unlimited :: pystr where
  "label_unlimited = [0x65E0, 0x9650, 0x5236, 0x9879, 0x76EE, 0x3A, 0x20]"
definition suffix_count :: pystr where
  "suffix_count = [0x4E2A]"
definition label_total_quota :: pystr where
  "label_total_quota = [0x603B, 0x5B58, 0x50A8, 0x9650, 0x5236, 0x3A, 0x20]"

fun print_all_projects :: "project list \<Rightarrow> storage_info \<Rightarrow> bool \<Rightarrow> printed" where
  \<comment> \<open>the loop of lines 320 and 321\<close>
  "print_all_projects [] info details = ([], None)"
| "print_all_projects (p # ps) info details =
     then_output (print_project_usage p info details) (print_all_projects ps info details)"

definition summary_lines :: "project list \<Rightarrow> printed" where
  \<comment> \<open>lines 324 to 334\<close>
  "summary_lines projects =
     (let total_quota =
            sum_list (map storage_quota_bytes (filter (\<lambda>p. 0 < storage_quota_bytes p) projects));
          unlimited_projects = filter (\<lambda>p. storage_quota_bytes p \<le> 0) projects;
          limited_projects = filter (\<lambda>p. 0 < storage_quota_bytes p) projects;
          counts =
            [0xA # separator_line,
             title_summary,
             label_total_projects @ digits (length projects),
             label_limited @ digits (length limited_projects) @ suffix_count,
             label_unlimited @ digits (length unlimited_projects) @ suffix_count]
      in if 0 < total_quota then
           (case format_size total_quota of
              Inl e \<Rightarrow> (counts, Some e)
            | Inr quota_text \<Rightarrow> (counts @ [label_total_quota @ quota_text], None))
         else (counts, None))"

definition main_report ::
    "project list \<Rightarrow> storage_info \<Rightarrow> pystr option \<Rightarrow> bool \<Rightarrow> main_result" where
  "main_report projects info project_name details =
     (case (case project_name of None \<Rightarrow> None | Some name \<Rightarrow> if name = [] then None else Some name) of
        Some name \<Rightarrow>
          (case find_project projects name of
             Some target_project \<Rightarrow> Report (print_project_usage target_project info True)
           | None \<Rightarrow> NotFound name (map project_key projects))
      | None \<Rightarrow>
          Report
            (then_output ([title_project_list], None)
               (then_output (print_all_projects projects info details) (summary_lines projects))))"

subsection \<open>Example data\<close>

text \<open>
  The end-to-end scenarios of the specification: a project with a quota of 1000 bytes that owns
  one repository of 900 bytes besides the \<open>TOTAL\<close> row, and a project without quota that owns
  no repository.
\<close>

definition example_repo :: repo where
  "example_repo =
     \<lparr>projectKey = Some (ascii ''proj1''), repoKey = Some (ascii ''r1''),
      repoType = Some (ascii ''LOCAL''), usedSpaceInBytes = Some 900\<rparr>"

definition example_total_row :: repo where
  "example_total_row =
     \<lparr>projectKey = Some (ascii ''proj1''), repoKey = Some (ascii ''TOTAL''),
      repoType = None, usedSpaceInBytes = Some 900\<rparr>"

definition example_info :: storage_info where
  "example_info = \<lparr>repositoriesSummaryList = Some [example_repo, example_total_row]\<rparr>"

definition example_limited :: project where
  "example_limited =
     \<lparr>project_key = ascii ''proj1'', display_name = ascii ''Project One'',
      storage_quota_bytes = 1000\<rparr>"

definition example_unlimited :: project where
  "example_unlimited =
     \<lparr>project_key = ascii ''p2'', display_name = ascii ''P2'', storage_quota_bytes = 0\<rparr>"


subsection \<open>Notions used to state the properties\<close>

text \<open>
  The non-negative finite binary64 values: an integer below \<open>2^53\<close> times a power of two that
  is at least \<open>2^-1074\<close>, below \<open>2^1024\<close>. On these \<open>round64\<close> is the identity.
\<close>

definition binary64 :: "real \<Rightarrow> bool" where
  "binary64 r \<longleftrightarrow>
     (\<exists>m k. r = of_int m * pow2 k \<and> 0 \<le> m \<and> m < 2 ^ 53 \<and> - 1074 \<le> k) \<and> r < pow2 1024"

text \<open>
  The unit rule in the words of the specification: start at the first unit; while the value is
  at least 1024 and a larger unit remains, divide by 1024 and advance one unit. It works on
  exact real numbers.
\<close>

fun spec_scale :: "real \<Rightarrow> string \<Rightarrow> string list \<Rightarrow> real \<times> string" where
  "spec_scale v unit [] = (v, unit)"
| "spec_scale v unit (larger # units) =
     (if 1024 \<le> v then spec_scale (v / 1024) larger units else (v, unit))"

section \<open>Aggregation\<close>

text \<open>
  Claim C1. A record is in the project's summary exactly when it is one of the storage records,
  its \<open>projectKey\<close> is the project key and its \<open>repoKey\<close> is not \<open>TOTAL\<close>, and it is
  there as often as among the storage records; so a \<open>TOTAL\<close> row is left out also when its
  project key matches.
\<close>

theorem calculate_project_usage_filter:
  "(r \<in> set (repositories (calculate_project_usage pkey info)) \<longleftrightarrow>
      r \<in> set (case repositoriesSummaryList info of None \<Rightarrow> [] | Some rs \<Rightarrow> rs)
      \<and> projectKey r = Some pkey \<and> repoKey r \<noteq> Some (ascii ''TOTAL''))
   \<and> count_list (repositories (calculate_project_usage pkey info)) r =
       (if projectKey r = Some pkey \<and> repoKey r \<noteq> Some (ascii ''TOTAL'')
        then count_list (case repositoriesSummaryList info of None \<Rightarrow> [] | Some rs \<Rightarrow> rs) r
        else 0)"
proof -
  have "count_list (filter P xs) r = (if P r then count_list xs r else 0)" for P and xs :: "repo list"
    by (induction xs) auto
  then show ?thesis
    by (simp add: calculate_project_usage_def Let_def)
qed

theorem calculate_project_usage_filter_witness:
  "example_repo \<in> set (repositories (calculate_project_usage (ascii ''proj1'') example_info))
   \<and> example_total_row \<notin> set (repositories (calculate_project_usage (ascii ''proj1'') example_info))
   \<and> example_repo \<notin> set (repositories (calculate_project_usage (ascii ''p2'') example_info))"
  using calculate_project_usage_filter [of example_repo "ascii ''proj1''" example_info]
    calculate_project_usage_filter [of example_total_row "ascii ''proj1''" example_info]
    calculate_project_usage_filter [of example_repo "ascii ''p2''" example_info]
  by (simp add: example_info_def example_repo_def example_total_row_def ascii_def)

text \<open>
  Claim C9. \<open>calculate_project_usage\<close> is a total function: it raises nothing. When no
  record passes the filter, and so when the storage records are empty or absent, the total is 0
  and the count is 0; the total adds 0 for a record without \<open>usedSpaceInBytes\<close>.
\<close>

theorem calculate_project_usage_empty:
  "(repositories (calculate_project_usage pkey info) = [] \<longrightarrow>
      total_used_bytes (calculate_project_usage pkey info) = 0
      \<and> repo_count (calculate_project_usage pkey info) = 0)
   \<and> calculate_project_usage pkey \<lparr>repositoriesSummaryList = Some []\<rparr>
       = \<lparr>repositories = [], total_used_bytes = 0, repo_count = 0\<rparr>
   \<and> calculate_project_usage pkey \<lparr>repositoriesSummaryList = None\<rparr>
       = \<lparr>repositories = [], total_used_bytes = 0, repo_count = 0\<rparr>
   \<and> total_used_bytes (calculate_project_usage pkey info) =
       (\<Sum>r\<leftarrow>repositories (calculate_project_usage pkey info).
          case usedSpaceInBytes r of None \<Rightarrow> 0 | Some v \<Rightarrow> v)
   \<and> repo_count (calculate_project_usage pkey info) =
       length (repositories (calculate_project_usage pkey info))"
proof -
  have "used_space = (\<lambda>r. case usedSpaceInBytes r of None \<Rightarrow> 0 | Some v \<Rightarrow> v)"
    by (rule ext) (simp add: used_space_def)
  then show ?thesis
    by (simp add: calculate_project_usage_def Let_def)
qed

theorem calculate_project_usage_empty_witness:
  "repositories (calculate_project_usage (ascii ''p2'') example_info) = []
   \<and> total_used_bytes (calculate_project_usage (ascii ''p2'') example_info) = 0
   \<and> repo_count (calculate_project_usage (ascii ''p2'') example_info) = 0
   \<and> total_used_bytes (calculate_project_usage (ascii ''proj1'')
        \<lparr>repositoriesSummaryList =
           Some [example_repo, example_repo\<lparr>repoKey := Some (ascii ''r2''), usedSpaceInBytes := None\<rparr>]\<rparr>)
      = 900"
proof -
  have e: "repositories (calculate_project_usage (ascii ''p2'') example_info) = []"
    by (simp add: calculate_project_usage_def example_info_def example_repo_def
        example_total_row_def ascii_def)
  have "total_used_bytes (calculate_project_usage (ascii ''proj1'')
        \<lparr>repositoriesSummaryList =
           Some [example_repo, example_repo\<lparr>repoKey := Some (ascii ''r2''), usedSpaceInBytes := None\<rparr>]\<rparr>)
      = 900"
    using calculate_project_usage_empty [of "ascii ''proj1''" "\<lparr>repositoriesSummaryList =
           Some [example_repo, example_repo\<lparr>repoKey := Some (ascii ''r2''), usedSpaceInBytes := None\<rparr>]\<rparr>"]
    by (simp add: calculate_project_usage_def example_repo_def ascii_def)
  with e calculate_project_usage_empty [of "ascii ''p2''" example_info] show ?thesis
    by simp
qed

section \<open>Display width and padding\<close>

lemma display_width_loop_sum:
  "display_width_loop s w = w + (\<Sum>c\<leftarrow>s. if 0x4E00 \<le> c \<and> c \<le> 0x9FFF then 2 else 1)"
  by (induction s arbitrary: w) simp_all

lemma get_display_width_sum_list:
  "get_display_width text = (\<Sum>c\<leftarrow>text. if 0x4E00 \<le> c \<and> c \<le> 0x9FFF then 2 else 1)"
  by (simp add: get_display_width_def display_width_loop_sum)

lemma get_display_width_append:
  "get_display_width (a @ b) = get_display_width a + get_display_width b"
  by (simp add: get_display_width_sum_list)

lemma get_display_width_spaces: "get_display_width (spaces n) = max 0 n"
proof -
  have "(\<Sum>c\<leftarrow>replicate k (0x20::nat). if 0x4E00 \<le> c \<and> c \<le> 0x9FFF then 2 else (1::int)) = int k" for k
    by (induction k) simp_all
  then show ?thesis by (simp add: get_display_width_sum_list spaces_def)
qed

text \<open>
  Claim C6. The display width is the sum over the characters of 2 for a code point from U+4E00
  to U+9FFF and of 1 for any other; a string of such CJK characters only is twice as wide as it is
  long, and an ASCII string is as wide as it is long.
\<close>

theorem get_display_width_rule:
  "get_display_width text = (\<Sum>c\<leftarrow>text. if 0x4E00 \<le> c \<and> c \<le> 0x9FFF then 2 else 1)
   \<and> ((\<forall>c\<in>set text. 0x4E00 \<le> c \<and> c \<le> 0x9FFF) \<longrightarrow> get_display_width text = 2 * int (length text))
   \<and> ((\<forall>c\<in>set text. c < 128) \<longrightarrow> get_display_width text = int (length text))"
proof -
  have a: "(\<forall>c\<in>set s. 0x4E00 \<le> c \<and> c \<le> 0x9FFF) \<Longrightarrow>
      (\<Sum>c\<leftarrow>s. if 0x4E00 \<le> c \<and> c \<le> 0x9FFF then 2 else (1::int)) = 2 * int (length s)" for s :: pystr
    by (induction s) simp_all
  have b: "(\<forall>c\<in>set s. c < 128) \<Longrightarrow>
      (\<Sum>c\<leftarrow>s. if 0x4E00 \<le> c \<and> c \<le> 0x9FFF then 2 else (1::int)) = int (length s)" for s :: pystr
    by (induction s) simp_all
  from a [of "text"] b [of "text"] show ?thesis by (simp add: get_display_width_sum_list)
qed

theorem get_display_width_rule_witness:
  "get_display_width header_repo_name = 8
   \<and> get_display_width (ascii ''N/A'') = 3
   \<and> get_display_width (label_quota @ text_unlimited) = 16
   \<and> get_display_width [0x4DFF, 0x4E00, 0x9FFF, 0xA000] = 6"
proof -
  have "\<forall>c\<in>set header_repo_name. 0x4E00 \<le> c \<and> c \<le> 0x9FFF"
    by (simp add: header_repo_name_def)
  moreover have "\<forall>c\<in>set (ascii ''N/A''). c < 128"
    by (simp add: ascii_def)
  ultimately show ?thesis
    using get_display_width_rule [of header_repo_name] get_display_width_rule [of "ascii ''N/A''"]
      get_display_width_rule [of "label_quota @ text_unlimited"]
      get_display_width_rule [of "[0x4DFF, 0x4E00, 0x9FFF, 0xA000]"]
    by (simp add: header_repo_name_def ascii_def label_quota_def text_unlimited_def)
qed

text \<open>
  Claim C7. \<open>pad_string\<close> returns the text unchanged when its display width reaches the
  target. Otherwise it adds exactly \<open>width - get_display_width text\<close> spaces: after the
  text for \<open><\<close>, before it for \<open>>\<close>, and for any other alignment half of them (rounded
  down) before and the rest after. The display width of the result is the larger of the target
  and the width of the text.
\<close>

theorem pad_string_rule:
  "(width \<le> get_display_width text \<longrightarrow> pad_string text width align = text)
   \<and> (get_display_width text < width \<longrightarrow>
        pad_string text width (ascii ''<'')
          = text @ replicate (nat (width - get_display_width text)) 0x20
        \<and> pad_string text width (ascii ''>'')
          = replicate (nat (width - get_display_width text)) 0x20 @ text
        \<and> (align \<noteq> ascii ''<'' \<and> align \<noteq> ascii ''>'' \<longrightarrow>
             pad_string text width align
               = replicate (nat ((width - get_display_width text) div 2)) 0x20 @ text
                 @ replicate (nat (width - get_display_width text
                                    - (width - get_display_width text) div 2)) 0x20)
        \<and> int (length (pad_string text width align))
            = int (length text) + (width - get_display_width text))
   \<and> get_display_width (pad_string text width align) = max width (get_display_width text)"
proof -
  have ne: "ascii ''<'' \<noteq> ascii ''>''" by (simp add: ascii_def)
  show ?thesis
    using ne
    by (auto simp add: pad_string_def Let_def spaces_def get_display_width_append
        get_display_width_spaces[unfolded spaces_def])
qed

theorem pad_string_rule_witness:
  "pad_string header_repo_type 12 (ascii ''<'') = header_repo_type @ replicate 8 0x20
   \<and> pad_string (ascii ''abc'') 8 (ascii ''^'')
       = replicate 2 0x20 @ ascii ''abc'' @ replicate 3 0x20
   \<and> pad_string (ascii ''abc'') 6 (ascii ''>'') = replicate 3 0x20 @ ascii ''abc''
   \<and> pad_string header_repo_name 5 (ascii ''<'') = header_repo_name
   \<and> get_display_width (pad_string header_repo_type 12 (ascii ''<'')) = 12"
proof -
  have w1: "get_display_width header_repo_type = 4"
    by (simp add: get_display_width_def header_repo_type_def)
  have w2: "get_display_width (ascii ''abc'') = 3"
    by (simp add: get_display_width_def ascii_def)
  have w3: "get_display_width header_repo_name = 8"
    by (simp add: get_display_width_def header_repo_name_def)
  have c: "ascii ''^'' \<noteq> ascii ''<''" "ascii ''^'' \<noteq> ascii ''>''"
    by (simp_all add: ascii_def)
  have "get_display_width (pad_string header_repo_type 12 (ascii ''<'')) = 12"
    using pad_string_rule [THEN conjunct2, THEN conjunct2, of header_repo_type 12 "ascii ''<''"] w1
    by simp
  moreover have "pad_string header_repo_type 12 (ascii ''<'') = header_repo_type @ replicate 8 0x20"
    using pad_string_rule [of 12 header_repo_type "ascii ''<''"] w1 by simp
  moreover have "pad_string (ascii ''abc'') 8 (ascii ''^'')
       = replicate 2 0x20 @ ascii ''abc'' @ replicate 3 0x20"
    using pad_string_rule [of 8 "ascii ''abc''" "ascii ''^''"] w2 c by simp
  moreover have "pad_string (ascii ''abc'') 6 (ascii ''>'') = replicate 3 0x20 @ ascii ''abc''"
    using pad_string_rule [of 6 "ascii ''abc''" "ascii ''>''"] w2 by simp
  moreover have "pad_string header_repo_name 5 (ascii ''<'') = header_repo_name"
    using pad_string_rule [of 5 header_repo_name "ascii ''<''"] w3 by simp
  ultimately show ?thesis by simp
qed

section \<open>Project selection\<close>

lemma find_project_None:
  "find_project ps name = None \<longleftrightarrow>
     (\<forall>p\<in>set ps. project_key p \<noteq> name \<and> display_name p \<noteq> name)"
  by (induction ps) auto

lemma find_project_Some:
  "find_project ps name = Some p \<longleftrightarrow>
     (\<exists>i<length ps. ps ! i = p \<and> (project_key p = name \<or> display_name p = name)
        \<and> (\<forall>j<i. project_key (ps ! j) \<noteq> name \<and> display_name (ps ! j) \<noteq> name))"
proof (induction ps)
  case Nil
  then show ?case by simp
next
  case (Cons q qs)
  show ?case
  proof (cases "project_key q = name \<or> display_name q = name")
    case True
    have "(\<exists>i<length (q # qs). (q # qs) ! i = p \<and> (project_key p = name \<or> display_name p = name)
        \<and> (\<forall>j<i. project_key ((q # qs) ! j) \<noteq> name \<and> display_name ((q # qs) ! j) \<noteq> name))
        \<longleftrightarrow> q = p"
    proof
      assume "\<exists>i<length (q # qs). (q # qs) ! i = p \<and> (project_key p = name \<or> display_name p = name)
        \<and> (\<forall>j<i. project_key ((q # qs) ! j) \<noteq> name \<and> display_name ((q # qs) ! j) \<noteq> name)"
      then obtain i where i: "(q # qs) ! i = p"
        "\<forall>j<i. project_key ((q # qs) ! j) \<noteq> name \<and> display_name ((q # qs) ! j) \<noteq> name"
        by blast
      have "i = 0"
      proof (rule ccontr)
        assume "i \<noteq> 0"
        then have "0 < i" by simp
        with i(2) have "project_key ((q # qs) ! 0) \<noteq> name \<and> display_name ((q # qs) ! 0) \<noteq> name"
          by blast
        with True show False by simp
      qed
      with i(1) show "q = p" by simp
    next
      assume "q = p"
      with True have "(q # qs) ! 0 = p \<and> (project_key p = name \<or> display_name p = name)
        \<and> (\<forall>j<0. project_key ((q # qs) ! j) \<noteq> name \<and> display_name ((q # qs) ! j) \<noteq> name)"
        by simp
      then show "\<exists>i<length (q # qs). (q # qs) ! i = p \<and> (project_key p = name \<or> display_name p = name)
        \<and> (\<forall>j<i. project_key ((q # qs) ! j) \<noteq> name \<and> display_name ((q # qs) ! j) \<noteq> name)"
        by (intro exI[of _ 0]) simp
    qed
    with True show ?thesis by simp
  next
    case False
    have "(\<exists>i<length (q # qs). (q # qs) ! i = p \<and> (project_key p = name \<or> display_name p = name)
        \<and> (\<forall>j<i. project_key ((q # qs) ! j) \<noteq> name \<and> display_name ((q # qs) ! j) \<noteq> name))
        \<longleftrightarrow> (\<exists>i<length qs. qs ! i = p \<and> (project_key p = name \<or> display_name p = name)
        \<and> (\<forall>j<i. project_key (qs ! j) \<noteq> name \<and> display_name (qs ! j) \<noteq> name))"
      (is "?L \<longleftrightarrow> ?R")
    proof
      assume ?L
      then obtain i where i: "i < length (q # qs)" "(q # qs) ! i = p"
        "project_key p = name \<or> display_name p = name"
        "\<forall>j<i. project_key ((q # qs) ! j) \<noteq> name \<and> display_name ((q # qs) ! j) \<noteq> name"
        by blast
      from i(2,3) False have "i \<noteq> 0" by (cases i) auto
      then obtain k where k: "i = Suc k" by (cases i) auto
      have "\<forall>j<k. project_key (qs ! j) \<noteq> name \<and> display_name (qs ! j) \<noteq> name"
      proof (intro allI impI)
        fix j assume "j < k"
        then have "Suc j < i" using k by simp
        with i(4) have "project_key ((q # qs) ! Suc j) \<noteq> name \<and> display_name ((q # qs) ! Suc j) \<noteq> name"
          by blast
        then show "project_key (qs ! j) \<noteq> name \<and> display_name (qs ! j) \<noteq> name" by simp
      qed
      with i(1,2,3) k show ?R by (intro exI[of _ k]) simp
    next
      assume ?R
      then obtain k where k: "k < length qs" "qs ! k = p"
        "project_key p = name \<or> display_name p = name"
        "\<forall>j<k. project_key (qs ! j) \<noteq> name \<and> display_name (qs ! j) \<noteq> name"
        by blast
      have "\<forall>j<Suc k. project_key ((q # qs) ! j) \<noteq> name \<and> display_name ((q # qs) ! j) \<noteq> name"
      proof (intro allI impI)
        fix j assume j: "j < Suc k"
        show "project_key ((q # qs) ! j) \<noteq> name \<and> display_name ((q # qs) ! j) \<noteq> name"
        proof (cases j)
          case 0
          with False show ?thesis by simp
        next
          case (Suc l)
          with j have "l < k" by simp
          with k(4) Suc show ?thesis by simp
        qed
      qed
      with k(1,2,3) show ?L by (intro exI[of _ "Suc k"]) simp
    qed
    with False Cons.IH show ?thesis by simp
  qed
qed

text \<open>
  Claim C8. A selector that is supplied (a non-empty name) is resolved by equality of the whole
  string with the project key or with the display name. The result is the first project of the
  list that matches; when none matches the result is \<open>NotFound\<close> with the requested name
  and the keys of all projects, in list order.
\<close>

theorem main_report_selection:
  "name \<noteq> [] \<Longrightarrow>
     (case main_report projects info (Some name) details of
        Report out \<Rightarrow>
          (\<exists>i<length projects.
              out = print_project_usage (projects ! i) info True
              \<and> (project_key (projects ! i) = name \<or> display_name (projects ! i) = name)
              \<and> (\<forall>j<i. project_key (projects ! j) \<noteq> name \<and> display_name (projects ! j) \<noteq> name))
      | NotFound requested keys \<Rightarrow>
          requested = name \<and> keys = map project_key projects
          \<and> (\<forall>p\<in>set projects. project_key p \<noteq> name \<and> display_name p \<noteq> name))"
proof (cases "find_project projects name")
  case None
  assume "name \<noteq> []"
  with None show ?thesis
    using find_project_None [of projects name] by (simp add: main_report_def)
next
  case (Some p)
  assume "name \<noteq> []"
  moreover from Some obtain i where "i < length projects" "projects ! i = p"
    "project_key p = name \<or> display_name p = name"
    "\<forall>j<i. project_key (projects ! j) \<noteq> name \<and> display_name (projects ! j) \<noteq> name"
    using find_project_Some [of projects name p] by blast
  ultimately show ?thesis using Some by (auto simp add: main_report_def)
qed

theorem main_report_selection_witness:
  "main_report [example_limited, example_unlimited] example_info (Some (ascii ''P2'')) False
     = Report (print_project_usage example_unlimited example_info True)
   \<and> main_report [example_limited, example_unlimited] example_info (Some (ascii ''p2'')) False
     = Report (print_project_usage example_unlimited example_info True)
   \<and> main_report [example_limited, example_unlimited, example_limited\<lparr>display_name := ascii ''P2''\<rparr>]
        example_info (Some (ascii ''P2'')) False
     = Report (print_project_usage example_unlimited example_info True)
   \<and> main_report [example_limited, example_unlimited] example_info (Some (ascii ''P1'')) False
     = NotFound (ascii ''P1'') [ascii ''proj1'', ascii ''p2'']
   \<and> main_report [example_limited, example_unlimited] example_info (Some (ascii ''PROJ1'')) False
     = NotFound (ascii ''PROJ1'') [ascii ''proj1'', ascii ''p2'']"
proof -
  have n: "ascii ''P2'' \<noteq> []" "ascii ''p2'' \<noteq> []" "ascii ''P1'' \<noteq> []" "ascii ''PROJ1'' \<noteq> []"
    by (simp_all add: ascii_def)
  have f: "find_project [example_limited, example_unlimited] (ascii ''P2'') = Some example_unlimited"
    "find_project [example_limited, example_unlimited] (ascii ''p2'') = Some example_unlimited"
    "find_project [example_limited, example_unlimited, example_limited\<lparr>display_name := ascii ''P2''\<rparr>]
        (ascii ''P2'') = Some example_unlimited"
    "find_project [example_limited, example_unlimited] (ascii ''P1'') = None"
    "find_project [example_limited, example_unlimited] (ascii ''PROJ1'') = None"
    by (simp_all add: example_limited_def example_unlimited_def ascii_def)
  have 1: "main_report [example_limited, example_unlimited] example_info (Some (ascii ''P1'')) False
     = NotFound (ascii ''P1'') [ascii ''proj1'', ascii ''p2'']"
  proof -
    have "main_report [example_limited, example_unlimited] example_info (Some (ascii ''P1'')) False
       = NotFound (ascii ''P1'') (map project_key [example_limited, example_unlimited])"
      by (simp add: main_report_def n f del: find_project.simps)
    with main_report_selection [OF n(3), of "[example_limited, example_unlimited]" example_info False]
    show ?thesis
      by (simp add: example_limited_def example_unlimited_def)
  qed
  from 1 show ?thesis
    by (simp add: main_report_def n f del: find_project.simps)
qed

section \<open>The project block\<close>

text \<open>The lines that \<open>print_project_usage\<close> prints, without and with a quota.\<close>

lemma then_output_simps [simp]:
  "then_output (ls, None) b = (ls @ fst b, snd b)"
  "then_output (ls, Some e) b = (ls, Some e)"
  by (simp_all add: then_output_def)

lemma float_of_int_error: "float_of_int n = Inl e \<Longrightarrow> e = OverflowError"
  by (auto simp add: float_of_int_def split: pyfloat.splits)

lemma format_size_error: "format_size n = Inl e \<Longrightarrow> e = OverflowError"
  by (auto simp add: format_size_def split: if_splits sum.splits dest: float_of_int_error)

lemma detail_row_unlimited_error:
  "storage_quota \<le> 0 \<Longrightarrow> detail_row storage_quota r = Inl e \<Longrightarrow> e \<noteq> ZeroDivisionError"
  by (auto simp add: detail_row_def Let_def split: option.splits sum.splits dest: format_size_error)

lemma detail_rows_unlimited_error:
  "storage_quota \<le> 0 \<Longrightarrow> snd (detail_rows storage_quota rs) \<noteq> Some ZeroDivisionError"
  by (induction rs) (auto split: sum.splits dest: detail_row_unlimited_error)

lemma details_lines_unlimited_error:
  "storage_quota \<le> 0 \<Longrightarrow> snd (details_lines storage_quota d rs) \<noteq> Some ZeroDivisionError"
  by (simp add: details_lines_def detail_rows_unlimited_error)

lemma print_project_usage_unlimited:
  assumes "storage_quota_bytes p \<le> 0"
  shows "print_project_usage p info show_details =
     (let usage = calculate_project_usage (project_key p) info;
          head =
            [0xA # separator_line,
             label_project_name @ color_green @ display_name p @ reset_code @ ascii '' (''
               @ project_key p @ ascii '')'',
             label_quota @ text_unlimited]
      in case format_size (total_used_bytes usage) of
           Inl e \<Rightarrow> (head, Some e)
         | Inr used \<Rightarrow>
             (head @ [label_used @ used, label_repo_count @ digits (repo_count usage),
                      label_usage_percent @ text_unlimited]
                @ fst (details_lines (storage_quota_bytes p) show_details (repositories usage)),
              snd (details_lines (storage_quota_bytes p) show_details (repositories usage))))"
  using assms
  by (simp add: print_project_usage_def percent_and_quota_display_def Let_def usage_lines_def
      get_project_name_color_def float_gt_def split: sum.splits)

lemma print_project_usage_limited:
  assumes "percent_and_quota_display
             (total_used_bytes (calculate_project_usage (project_key p) info))
             (storage_quota_bytes p) = Inr (usage_percent, quota_display)"
    and "0 < storage_quota_bytes p"
    and "format_size (total_used_bytes (calculate_project_usage (project_key p) info)) = Inr used"
    and "usage_bar usage_percent = Inr bar"
  shows "print_project_usage p info show_details =
     (let usage = calculate_project_usage (project_key p) info
      in ([0xA # separator_line,
           label_project_name @ get_project_name_color usage_percent @ display_name p @ reset_code
             @ ascii '' ('' @ project_key p @ ascii '')'',
           label_quota @ quota_display,
           label_used @ used,
           label_repo_count @ digits (repo_count usage),
           label_usage_percent @ format_f 2 usage_percent @ ascii ''%'',
           label_usage_bar @ bar @ ascii ''] '' @ format_f 1 usage_percent @ ascii ''%'']
            @ warning_lines usage_percent
            @ fst (details_lines (storage_quota_bytes p) show_details (repositories usage)),
          snd (details_lines (storage_quota_bytes p) show_details (repositories usage))))"
  using assms
  by (simp add: print_project_usage_def Let_def usage_lines_def)

section \<open>Rounding to binary64\<close>

text \<open>
  \<open>floor_log2\<close> is the binary exponent, \<open>round_half_even\<close> is monotone and fixes the
  integers, and \<open>round64\<close> is the identity on the binary64 values and never crosses an
  integer below \<open>2^53\<close>.
\<close>

lemma pow2_powr: "pow2 e = 2 powr (real_of_int e)"
proof (cases "0 \<le> e")
  case True
  then show ?thesis by (simp add: pow2_def powr_realpow[symmetric])
next
  case False
  then have "2 powr (real_of_int e) = 1 / 2 powr (real (nat (- e)))"
    by (simp add: powr_minus_divide[symmetric])
  with False show ?thesis by (simp add: pow2_def powr_realpow[symmetric])
qed

lemma pow2_pos [simp]: "0 < pow2 e"
  by (simp add: pow2_powr)

lemma pow2_nonzero [simp]: "pow2 e \<noteq> 0"
  by (simp add: pow2_powr)

lemma pow2_add: "pow2 (a + b) = pow2 a * pow2 b"
  by (simp add: pow2_powr powr_add)

lemma pow2_diff: "pow2 (a - b) = pow2 a / pow2 b"
  by (simp add: pow2_powr powr_diff)

lemma pow2_le_iff [simp]: "pow2 a \<le> pow2 b \<longleftrightarrow> a \<le> b"
  by (simp add: pow2_powr)

lemma pow2_less_iff [simp]: "pow2 a < pow2 b \<longleftrightarrow> a < b"
  by (simp add: pow2_powr)

lemma pow2_nat: "pow2 (int n) = 2 ^ n"
  by (simp add: pow2_def)

lemma power_times_pow2: "2 ^ n * pow2 k = pow2 (int n + k)"
  by (simp add: pow2_add pow2_nat)

lemma pow2_times_power: "pow2 k * 2 ^ n = pow2 (k + int n)"
  by (simp add: pow2_add pow2_nat)

lemma real_of_int_less_power:
  "n < 2 ^ k \<Longrightarrow> real_of_int n < 2 ^ k"
  by (metis of_int_less_numeral_power_cancel_iff)

lemma pow2_numeral: "pow2 (numeral w) = 2 ^ numeral w"
  by (simp add: pow2_def)

lemma floor_log2_lower: assumes "0 < x" shows "pow2 (floor_log2 x) \<le> x"
proof (cases "1 \<le> x")
  case True
  then have n: "0 < \<lfloor>x\<rfloor>" by linarith
  define k where "k = nat (bitlen \<lfloor>x\<rfloor> - 1)"
  from bitlen_bounds[OF n] have "2 ^ k \<le> \<lfloor>x\<rfloor>" by (simp add: k_def)
  then have "real_of_int (2 ^ k) \<le> real_of_int \<lfloor>x\<rfloor>"
    by (rule of_int_le_iff[THEN iffD2])
  moreover have "real_of_int \<lfloor>x\<rfloor> \<le> x" by (rule of_int_floor_le)
  moreover have "real_of_int (2 ^ k) = 2 ^ k" by simp
  ultimately have "(2::real) ^ k \<le> x" by linarith
  moreover have "0 \<le> bitlen \<lfloor>x\<rfloor> - 1" using n by (simp add: bitlen_def floorlog_def)
  ultimately show ?thesis using True by (simp add: floor_log2_def pow2_def k_def)
next
  case False
  define c where "c = \<lceil>1 / x\<rceil>"
  define m where "m = bitlen (c - 1)"
  have y: "1 < 1 / x" using False assms by simp
  then have c: "0 < c - 1" unfolding c_def by linarith
  from bitlen_bounds[OF c] have "c - 1 < 2 ^ nat m" by (simp add: m_def)
  then have "c \<le> 2 ^ nat m" by simp
  then have "real_of_int c \<le> real_of_int (2 ^ nat m)" by (rule of_int_le_iff[THEN iffD2])
  moreover have "1 / x \<le> real_of_int c" unfolding c_def by (rule le_of_int_ceiling)
  moreover have "real_of_int (2 ^ nat m) = 2 ^ nat m" by simp
  ultimately have "1 / x \<le> 2 ^ nat m" by linarith
  then have "1 \<le> 2 ^ nat m * x" using assms by (simp add: field_simps)
  then have "1 / 2 ^ nat m \<le> x" by (simp add: field_simps)
  moreover have "0 < m"
  proof (rule ccontr)
    assume "\<not> 0 < m"
    then have "nat m = 0" by simp
    with \<open>c - 1 < 2 ^ nat m\<close> c show False by simp
  qed
  ultimately show ?thesis using False by (simp add: floor_log2_def pow2_def c_def m_def)
qed

lemma floor_log2_upper: assumes "0 < x" shows "x < pow2 (floor_log2 x + 1)"
proof (cases "1 \<le> x")
  case True
  then have n: "0 < \<lfloor>x\<rfloor>" by linarith
  define k where "k = nat (bitlen \<lfloor>x\<rfloor>)"
  from bitlen_bounds[OF n] have "\<lfloor>x\<rfloor> < 2 ^ k" by (simp add: k_def)
  then have "\<lfloor>x\<rfloor> + 1 \<le> 2 ^ k" by simp
  then have "real_of_int (\<lfloor>x\<rfloor> + 1) \<le> real_of_int (2 ^ k)"
    by (rule of_int_le_iff[THEN iffD2])
  moreover have "x < real_of_int (\<lfloor>x\<rfloor> + 1)" by linarith
  moreover have "real_of_int (2 ^ k) = 2 ^ k" by simp
  ultimately have "x < (2::real) ^ k" by linarith
  moreover have "0 \<le> bitlen \<lfloor>x\<rfloor>" by (simp add: bitlen_def)
  ultimately show ?thesis using True by (simp add: floor_log2_def pow2_def k_def)
next
  case False
  define c where "c = \<lceil>1 / x\<rceil>"
  define m where "m = bitlen (c - 1)"
  have y: "1 < 1 / x" using False assms by simp
  then have c: "0 < c - 1" unfolding c_def by linarith
  from bitlen_bounds[OF c] have ub: "c - 1 < 2 ^ nat m" by (simp add: m_def)
  have mpos: "0 < m"
  proof (rule ccontr)
    assume "\<not> 0 < m"
    then have "nat m = 0" by simp
    with ub c show False by simp
  qed
  from bitlen_bounds[OF c] have "2 ^ nat (m - 1) \<le> c - 1" by (simp add: m_def)
  then have "real_of_int (2 ^ nat (m - 1)) \<le> real_of_int (c - 1)"
    by (rule of_int_le_iff[THEN iffD2])
  moreover have "real_of_int (c - 1) < 1 / x" unfolding c_def by linarith
  moreover have "real_of_int (2 ^ nat (m - 1)) = 2 ^ nat (m - 1)" by simp
  ultimately have "2 ^ nat (m - 1) < 1 / x" by linarith
  then have "2 ^ nat (m - 1) * x < 1" using assms by (simp add: field_simps)
  then have *: "x < 1 / 2 ^ nat (m - 1)" by (simp add: field_simps)
  have fl: "floor_log2 x + 1 = - (m - 1)" using False by (simp add: floor_log2_def c_def m_def)
  show ?thesis
  proof (cases "m = 1")
    case True
    with * fl show ?thesis by (simp add: pow2_def)
  next
    case False
    with mpos have "\<not> 0 \<le> - (m - 1)" by simp
    with * fl show ?thesis by (simp add: pow2_def)
  qed
qed

lemma floor_log2_unique:
  assumes "pow2 e \<le> x" "x < pow2 (e + 1)"
  shows "floor_log2 x = e"
proof -
  have x: "0 < x" using assms(1) pow2_pos[of e] by linarith
  have "pow2 (floor_log2 x) < pow2 (e + 1)"
    using floor_log2_lower[OF x] assms(2) by linarith
  moreover have "pow2 e < pow2 (floor_log2 x + 1)"
    using floor_log2_upper[OF x] assms(1) by linarith
  ultimately show ?thesis by simp
qed

lemma round_half_even_of_int [simp]: "round_half_even (of_int m) = m"
  by (simp add: round_half_even_def)

lemma round_half_even_le: assumes "x \<le> of_int n" shows "round_half_even x \<le> n"
proof -
  have "\<lfloor>x\<rfloor> \<le> \<lfloor>real_of_int n\<rfloor>" by (rule floor_mono[OF assms])
  then have "\<lfloor>x\<rfloor> \<le> n" by simp
  show ?thesis
  proof (cases "\<lfloor>x\<rfloor> = n")
    case True
    then have "x - of_int \<lfloor>x\<rfloor> \<le> 0" using assms by simp
    then show ?thesis using True by (simp add: round_half_even_def Let_def)
  next
    case False
    with \<open>\<lfloor>x\<rfloor> \<le> n\<close> have "\<lfloor>x\<rfloor> + 1 \<le> n" by simp
    then show ?thesis by (simp add: round_half_even_def Let_def)
  qed
qed

lemma round_half_even_ge: assumes "of_int n \<le> x" shows "n \<le> round_half_even x"
proof -
  have "n \<le> \<lfloor>x\<rfloor>" using assms by (simp add: le_floor_iff)
  then show ?thesis by (simp add: round_half_even_def Let_def)
qed


lemma round_half_even_near:
  assumes "\<bar>x - of_int m\<bar> < 1 / 2"
  shows "round_half_even x = m"
proof (cases "of_int m \<le> x")
  case True
  have "of_int m \<le> x" "x < of_int m + 1" using assms True by linarith+
  then have "\<lfloor>x\<rfloor> = m" by (rule floor_unique)
  with assms True show ?thesis by (simp add: round_half_even_def Let_def)
next
  case False
  have "of_int (m - 1) \<le> x" "x < of_int (m - 1) + 1" using assms False by simp_all
  then have f: "\<lfloor>x\<rfloor> = m - 1" by (rule floor_unique)
  have "1 / 2 < x - of_int (m - 1)" using assms False by simp
  with f show ?thesis by (simp add: round_half_even_def Let_def)
qed

lemma round64_pos:
  assumes "0 < x"
  shows "round64 x =
     (let q = pow2 (max (floor_log2 x) (- 1022) - 52);
          y = of_int (round_half_even (x / q)) * q
      in if pow2 1024 \<le> y then PInf else Fin y)"
  using assms by (simp add: round64_def Let_def)

lemma round64_certificate:
  assumes "pow2 e \<le> x" "x < pow2 (e + 1)" "- 1022 \<le> e"
    and "\<bar>x / pow2 (e - 52) - of_int m\<bar> < 1 / 2"
    and "of_int m * pow2 (e - 52) < pow2 1024"
  shows "round64 x = Fin (of_int m * pow2 (e - 52))"
proof -
  have x: "0 < x" using assms(1) pow2_pos [of e] by linarith
  have e: "floor_log2 x = e" using assms(1,2) by (rule floor_log2_unique)
  have m: "round_half_even (x / pow2 (e - 52)) = m" using assms(4) by (rule round_half_even_near)
  show ?thesis using assms(3,5) by (simp add: round64_pos [OF x] e m Let_def max_def)
qed

lemma round64_exact:
  assumes m: "0 < m" "m < 2 ^ 53" and k: "- 1074 \<le> k"
    and top: "of_int m * pow2 k < pow2 1024"
  shows "round64 (of_int m * pow2 k) = Fin (of_int m * pow2 k)"
proof -
  define r where "r = of_int m * pow2 k"
  define e' where "e' = max (floor_log2 r) (- 1022)"
  define d where "d = k - (e' - 52)"
  have r: "0 < r" using m(1) by (simp add: r_def)
  have "of_int m < (2::real) ^ 53" using m(2) by (rule real_of_int_less_power)
  then have "r < 2 ^ 53 * pow2 k" by (simp add: r_def)
  also have "\<dots> = pow2 (53 + k)" using power_times_pow2 [of 53 k] by simp
  finally have "pow2 (floor_log2 r) < pow2 (53 + k)"
    using floor_log2_lower [OF r] by linarith
  then have "floor_log2 r - 52 \<le> k" by simp
  with k have d: "0 \<le> d" by (simp add: d_def e'_def)
  have "pow2 k = pow2 (e' - 52) * pow2 d"
    by (simp add: d_def pow2_add [symmetric])
  also have "pow2 d = of_int (2 ^ nat d)" using d by (simp add: pow2_def)
  finally have pk: "pow2 k = pow2 (e' - 52) * of_int (2 ^ nat d)" .
  have "r / pow2 (e' - 52) = of_int (m * 2 ^ nat d)"
    by (simp add: r_def pk)
  then have "round_half_even (r / pow2 (e' - 52)) = m * 2 ^ nat d"
    by (simp only: round_half_even_of_int)
  moreover have "of_int (m * 2 ^ nat d) * pow2 (e' - 52) = r"
    by (simp add: r_def pk)
  ultimately show ?thesis
    using top unfolding r_def [symmetric]
    by (simp add: round64_pos [OF r] Let_def e'_def [symmetric])
qed

lemma round64_of_int:
  assumes "0 \<le> n" "n < 2 ^ 53"
  shows "round64 (of_int n) = Fin (of_int n)"
proof (cases "n = 0")
  case True
  then show ?thesis by (simp add: round64_def)
next
  case False
  with assms have n: "0 < n" by simp
  have "real_of_int n < 2 ^ 53" using assms(2) by (rule real_of_int_less_power)
  also have "(2::real) ^ 53 < pow2 1024" by (simp add: pow2_def)
  finally have "of_int n * pow2 0 < pow2 1024" by (simp add: pow2_def)
  from round64_exact [OF n assms(2) _ this] show ?thesis by (simp add: pow2_def)
qed

lemma round64_numeral [simp]:
  "numeral w < (2::int) ^ 53 \<Longrightarrow> round64 (numeral w) = Fin (numeral w)"
  using round64_of_int [of "numeral w"] by simp

lemma round64_zero [simp]: "round64 0 = Fin 0"
  by (simp add: round64_def)

lemma round64_one [simp]: "round64 1 = Fin 1"
  using round64_of_int [of 1] by simp

text \<open>The value of a rounding is again a binary64 value, and lies between the integers around.\<close>

lemma round64_shape:
  assumes x: "0 < x" and r: "round64 x = Fin r"
  shows "\<exists>m k. r = of_int m * pow2 k \<and> 0 \<le> m \<and> m < 2 ^ 53 \<and> - 1074 \<le> k"
    and "r < pow2 1024"
proof -
  define e' where "e' = max (floor_log2 x) (- 1022)"
  define q where "q = pow2 (e' - 52)"
  define m where "m = round_half_even (x / q)"
  have q: "0 < q" by (simp add: q_def)
  from r have y: "r = of_int m * q" and top: "\<not> pow2 1024 \<le> of_int m * q"
    by (simp_all add: round64_pos [OF x] Let_def e'_def [symmetric] q_def [symmetric]
        m_def [symmetric] split: if_splits)
  from top y show "r < pow2 1024" by simp
  have "x < pow2 (floor_log2 x + 1)" by (rule floor_log2_upper [OF x])
  also have "\<dots> \<le> pow2 (e' + 1)" by (simp add: e'_def)
  also have "\<dots> = q * 2 ^ 53"
    using pow2_times_power [of "e' - 52" 53] by (simp add: q_def add.commute)
  finally have "x / q < 2 ^ 53" using q by (simp add: field_simps)
  then have "x / q \<le> of_int (2 ^ 53)" by simp
  then have m53: "m \<le> 2 ^ 53" unfolding m_def by (rule round_half_even_le)
  have "of_int 0 \<le> x / q" using x q by simp
  then have m0: "0 \<le> m" unfolding m_def by (rule round_half_even_ge)
  show "\<exists>m k. r = of_int m * pow2 k \<and> 0 \<le> m \<and> m < 2 ^ 53 \<and> - 1074 \<le> k"
  proof (cases "m = 2 ^ 53")
    case True
    have "r = of_int (2 ^ 52) * pow2 (e' - 51)"
      using y True power_times_pow2 [of 53 "e' - 52"] power_times_pow2 [of 52 "e' - 51"]
      by (simp add: q_def)
    moreover have "- 1074 \<le> e' - 51" by (simp add: e'_def)
    ultimately show ?thesis by (intro exI [of _ "2 ^ 52"] exI [of _ "e' - 51"]) simp
  next
    case False
    with m53 have "m < 2 ^ 53" by simp
    moreover have "- 1074 \<le> e' - 52" by (simp add: e'_def)
    ultimately show ?thesis using y m0 by (intro exI [of _ m] exI [of _ "e' - 52"]) (simp add: q_def)
  qed
qed


lemma round64_ge_int:
  assumes n: "0 < n" "n < 2 ^ 53" and le: "of_int n \<le> x" and r: "round64 x = Fin r"
  shows "of_int n \<le> r"
proof -
  have x: "0 < x" using n(1) le by linarith
  define e' where "e' = max (floor_log2 x) (- 1022)"
  define q where "q = pow2 (e' - 52)"
  define m where "m = round_half_even (x / q)"
  have q: "0 < q" by (simp add: q_def)
  from r have y: "r = of_int m * q"
    by (simp add: round64_pos [OF x] Let_def e'_def [symmetric] q_def [symmetric]
        m_def [symmetric] split: if_splits)
  show ?thesis
  proof (cases "e' \<le> 52")
    case True
    define d where "d = 52 - e'"
    have d: "0 \<le> d" using True by (simp add: d_def)
    have "1 / q = pow2 d" by (simp add: q_def d_def pow2_diff)
    also have "\<dots> = of_int (2 ^ nat d)" using d by (simp add: pow2_def)
    finally have iq: "1 / q = of_int (2 ^ nat d)" .
    have "of_int (n * 2 ^ nat d) = of_int n * (1 / q)" unfolding iq by simp
    also have "\<dots> = of_int n / q" by simp
    also have "\<dots> \<le> x / q" using le q by (simp add: divide_right_mono)
    finally have "n * 2 ^ nat d \<le> m" unfolding m_def by (rule round_half_even_ge)
    then have "real_of_int (n * 2 ^ nat d) \<le> real_of_int m" by (rule of_int_le_iff [THEN iffD2])
    moreover have "real_of_int (n * 2 ^ nat d) = of_int n * (1 / q)" unfolding iq by simp
    ultimately have "of_int n * (1 / q) \<le> of_int m" by simp
    then show ?thesis using q by (simp add: y field_simps)
  next
    case False
    then have e: "e' = floor_log2 x" "53 \<le> e'" by (simp_all add: e'_def max_def split: if_splits)
    have "pow2 e' \<le> x" unfolding e(1) by (rule floor_log2_lower [OF x])
    moreover have "pow2 e' = q * 2 ^ 52" using pow2_times_power [of "e' - 52" 52] by (simp add: q_def)
    ultimately have "of_int (2 ^ 52) \<le> x / q" using q by (simp add: field_simps)
    then have "2 ^ 52 \<le> m" unfolding m_def by (rule round_half_even_ge)
    then have "real_of_int (2 ^ 52) \<le> real_of_int m" by (rule of_int_le_iff [THEN iffD2])
    then have "2 ^ 52 * q \<le> r" using q by (simp add: y)
    moreover have "2 ^ 52 * q = pow2 e'" using power_times_pow2 [of 52 "e' - 52"] by (simp add: q_def)
    moreover have "pow2 53 \<le> pow2 e'" using e(2) by simp
    moreover have "real_of_int n < 2 ^ 53" using n(2) by (rule real_of_int_less_power)
    ultimately show ?thesis by (simp add: pow2_numeral)
  qed
qed

section \<open>Evaluating the float operations\<close>

text \<open>The values of the example data: 900 of 1000 bytes are 90.0 percent, 900 of 450 are 200.0.\<close>

lemma round_half_even_numeral [simp]: "round_half_even (numeral w) = numeral w"
  using round_half_even_of_int [of "numeral w"] by simp

lemma round_half_even_zero [simp]: "round_half_even 0 = 0"
  using round_half_even_of_int [of 0] by simp

lemma frac_digits_1: "frac_digits 1 m = [48 + m mod 10]"
  using frac_digits.simps(2) [of 0 m] by simp

lemma frac_digits_2: "frac_digits 2 m = [48 + m div 10 mod 10, 48 + m mod 10]"
  using frac_digits.simps(2) [of 1 m] by (simp add: frac_digits_1 numeral_2_eq_2)

lemma float_of_int_small:
  "0 \<le> n \<Longrightarrow> n < 2 ^ 53 \<Longrightarrow> float_of_int n = Inr (Fin (of_int n))"
  by (simp add: float_of_int_def round64_of_int)

lemma int_truediv_900_1000:
  "int_truediv 900 1000 = Inr (Fin (8106479329266893 / 9007199254740992))"
proof -
  have "round64 (9 / 10) = Fin (of_int 8106479329266893 * pow2 (- 1 - 52))"
    by (rule round64_certificate) (simp_all add: pow2_def)
  then show ?thesis by (simp add: int_truediv_def pow2_def)
qed

lemma usage_percent_of_900_1000: "usage_percent_of 900 1000 = Inr (Fin 90)"
proof -
  have "round64 (8106479329266893 / 9007199254740992 * 100)
      = Fin (of_int 6333186975989760 * pow2 (6 - 52))"
    by (rule round64_certificate) (simp_all add: pow2_def)
  then show ?thesis
    by (simp add: usage_percent_of_def int_truediv_900_1000 float_mul_def pow2_def)
qed


lemma usage_bar_90:
  "usage_bar (Fin 90) = Inr (replicate 27 glyph_filled @ replicate 3 glyph_empty)"
  by (simp add: usage_bar_def float_mul_def float_div_def float_to_int_def)


lemma format_size_900: "format_size 900 = Inr (ascii ''900.00 B'')"
  by (simp add: format_size_def float_of_int_def format_f_def frac_digits_2 digits.simps ascii_def)

lemma format_size_1000: "format_size 1000 = Inr (ascii ''1000.00 B'')"
  by (simp add: format_size_def float_of_int_def format_f_def frac_digits_2 digits.simps ascii_def)


lemma format_f_90: "format_f 2 (Fin 90) = ascii ''90.00''" "format_f 1 (Fin 90) = ascii ''90.0''"
  by (simp_all add: format_f_def frac_digits_2 frac_digits_1 digits.simps ascii_def)



lemma example_usage:
  "calculate_project_usage (ascii ''proj1'') example_info
     = \<lparr>repositories = [example_repo], total_used_bytes = 900, repo_count = 1\<rparr>"
  by (simp add: calculate_project_usage_def example_info_def example_repo_def
      example_total_row_def used_space_def ascii_def)

section \<open>Tiers\<close>

text \<open>
  Claim C3. The colour and the warning text are chosen by the same strict comparisons: above 90
  the red code and the critical line, above 80 and up to 90 the yellow code and the attention
  line, up to 80 the green code and no line; so 80 is normal and 90 is warning. In the report
  of a project with a quota both are taken from the one usage percentage.
\<close>

theorem tier_thresholds:
  "(90 < r \<longrightarrow> get_project_name_color (Fin r) = color_red
                \<and> warning_lines (Fin r) = [warning_critical])
   \<and> (80 < r \<and> r \<le> 90 \<longrightarrow> get_project_name_color (Fin r) = color_yellow
                \<and> warning_lines (Fin r) = [warning_attention])
   \<and> (r \<le> 80 \<longrightarrow> get_project_name_color (Fin r) = color_green \<and> warning_lines (Fin r) = [])
   \<and> get_project_name_color (Fin 80) = color_green \<and> warning_lines (Fin 80) = []
   \<and> get_project_name_color (Fin 90) = color_yellow
   \<and> warning_lines (Fin 90) = [warning_attention]
   \<and> distinct [color_red, color_yellow, color_green]
   \<and> warning_critical \<noteq> warning_attention
   \<and> (0 < storage_quota_bytes p
        \<and> percent_and_quota_display
             (total_used_bytes (calculate_project_usage (project_key p) info))
             (storage_quota_bytes p) = Inr (usage_percent, quota_display)
        \<and> format_size (total_used_bytes (calculate_project_usage (project_key p) info)) = Inr used
        \<and> usage_bar usage_percent = Inr bar
        \<longrightarrow> fst (print_project_usage p info False)
            = [0xA # separator_line,
               label_project_name @ get_project_name_color usage_percent @ display_name p
                 @ reset_code @ ascii '' ('' @ project_key p @ ascii '')'',
               label_quota @ quota_display,
               label_used @ used,
               label_repo_count
                 @ digits (repo_count (calculate_project_usage (project_key p) info)),
               label_usage_percent @ format_f 2 usage_percent @ ascii ''%'',
               label_usage_bar @ bar @ ascii ''] '' @ format_f 1 usage_percent @ ascii ''%'']
              @ warning_lines usage_percent)"
proof -
  have "distinct [color_red, color_yellow, color_green]"
    by (simp add: color_red_def color_yellow_def color_green_def ascii_def)
  moreover have "warning_critical \<noteq> warning_attention"
    by (simp add: warning_critical_def warning_attention_def)
  moreover have "0 < storage_quota_bytes p
        \<and> percent_and_quota_display
             (total_used_bytes (calculate_project_usage (project_key p) info))
             (storage_quota_bytes p) = Inr (usage_percent, quota_display)
        \<and> format_size (total_used_bytes (calculate_project_usage (project_key p) info)) = Inr used
        \<and> usage_bar usage_percent = Inr bar
        \<longrightarrow> fst (print_project_usage p info False)
            = [0xA # separator_line,
               label_project_name @ get_project_name_color usage_percent @ display_name p
                 @ reset_code @ ascii '' ('' @ project_key p @ ascii '')'',
               label_quota @ quota_display,
               label_used @ used,
               label_repo_count
                 @ digits (repo_count (calculate_project_usage (project_key p) info)),
               label_usage_percent @ format_f 2 usage_percent @ ascii ''%'',
               label_usage_bar @ bar @ ascii ''] '' @ format_f 1 usage_percent @ ascii ''%'']
              @ warning_lines usage_percent"
    by (auto simp add: print_project_usage_limited Let_def details_lines_def)
  ultimately show ?thesis
    by (simp add: get_project_name_color_def warning_lines_def float_gt_def)
qed

theorem tier_thresholds_witness:
  "get_project_name_color (Fin (80 + 1 / 10000)) = color_yellow
   \<and> warning_lines (Fin (80 + 1 / 10000)) = [warning_attention]
   \<and> get_project_name_color (Fin (90 + 1 / 10000)) = color_red
   \<and> warning_lines (Fin (90 + 1 / 10000)) = [warning_critical]
   \<and> get_project_name_color (Fin 17) = color_green
   \<and> warning_lines (Fin 17) = []
   \<and> fst (print_project_usage example_limited example_info False)
      = [0xA # separator_line,
         label_project_name @ color_yellow @ ascii ''Project One'' @ reset_code
           @ ascii '' (proj1)'',
         label_quota @ ascii ''1000.00 B'',
         label_used @ ascii ''900.00 B'',
         label_repo_count @ ascii ''1'',
         label_usage_percent @ ascii ''90.00%'',
         label_usage_bar @ replicate 27 glyph_filled @ replicate 3 glyph_empty @ ascii ''] 90.0%'',
         warning_attention]"
proof -
  have k: "project_key example_limited = ascii ''proj1''"
    "display_name example_limited = ascii ''Project One''"
    "storage_quota_bytes example_limited = 1000"
    by (simp_all add: example_limited_def)
  have pq: "percent_and_quota_display
             (total_used_bytes (calculate_project_usage (project_key example_limited) example_info))
             (storage_quota_bytes example_limited) = Inr (Fin 90, ascii ''1000.00 B'')"
    by (simp add: k example_usage percent_and_quota_display_def usage_percent_of_900_1000
        format_size_1000)
  have fs: "format_size
      (total_used_bytes (calculate_project_usage (project_key example_limited) example_info))
      = Inr (ascii ''900.00 B'')"
    by (simp add: k example_usage format_size_900)
  have a: "(80::real) < 80 + 1 / 10000 \<and> (80::real) + 1 / 10000 \<le> 90" by simp
  have b: "(90::real) < 90 + 1 / 10000" by simp
  have c: "(17::real) \<le> 80" by simp
  have d: "digits (Suc 0) = ascii ''1''" by (simp add: digits.simps ascii_def)
  note t1 = tier_thresholds [of "80 + 1 / 10000" example_limited example_info "Fin 90"
      "ascii ''1000.00 B''" "ascii ''900.00 B''"
      "replicate 27 glyph_filled @ replicate 3 glyph_empty"]
  note t2 = tier_thresholds [of "90 + 1 / 10000" example_limited example_info "Fin 90"
      "ascii ''1000.00 B''" "ascii ''900.00 B''"
      "replicate 27 glyph_filled @ replicate 3 glyph_empty"]
  note t3 = tier_thresholds [of 17 example_limited example_info "Fin 90"
      "ascii ''1000.00 B''" "ascii ''900.00 B''"
      "replicate 27 glyph_filled @ replicate 3 glyph_empty"]
  from t1 a have 1: "get_project_name_color (Fin (80 + 1 / 10000)) = color_yellow
      \<and> warning_lines (Fin (80 + 1 / 10000)) = [warning_attention]" by blast
  from t2 b have 2: "get_project_name_color (Fin (90 + 1 / 10000)) = color_red
      \<and> warning_lines (Fin (90 + 1 / 10000)) = [warning_critical]" by blast
  from t3 c have 3: "get_project_name_color (Fin 17) = color_green \<and> warning_lines (Fin 17) = []"
    by blast
  from t3 have 4: "get_project_name_color (Fin 90) = color_yellow"
    "warning_lines (Fin 90) = [warning_attention]" by blast+
  from t3 pq fs usage_bar_90 k(3)
  have "fst (print_project_usage example_limited example_info False)
            = [0xA # separator_line,
               label_project_name @ get_project_name_color (Fin 90) @ display_name example_limited
                 @ reset_code @ ascii '' ('' @ project_key example_limited @ ascii '')'',
               label_quota @ ascii ''1000.00 B'',
               label_used @ ascii ''900.00 B'',
               label_repo_count
                 @ digits (repo_count (calculate_project_usage (project_key example_limited) example_info)),
               label_usage_percent @ format_f 2 (Fin 90) @ ascii ''%'',
               label_usage_bar @ (replicate 27 glyph_filled @ replicate 3 glyph_empty) @ ascii ''] ''
                 @ format_f 1 (Fin 90) @ ascii ''%'']
              @ warning_lines (Fin 90)"
    by simp
  then have "fst (print_project_usage example_limited example_info False)
      = [0xA # separator_line,
         label_project_name @ color_yellow @ ascii ''Project One'' @ reset_code
           @ ascii '' (proj1)'',
         label_quota @ ascii ''1000.00 B'',
         label_used @ ascii ''900.00 B'',
         label_repo_count @ ascii ''1'',
         label_usage_percent @ ascii ''90.00%'',
         label_usage_bar @ replicate 27 glyph_filled @ replicate 3 glyph_empty @ ascii ''] 90.0%'',
         warning_attention]"
    unfolding 4 k example_usage format_f_90 by (simp add: d ascii_def)
  with 1 2 3 show ?thesis by blast
qed

section \<open>The usage bar\<close>









section \<open>Division by 1024 is exact\<close>

text \<open>
  A binary64 value of at least 1024 divided by 1024 is again a binary64 value, so the loop of
  \<open>format_size\<close> computes the exact quotients that the rule of the specification names.
\<close>

lemma binary64_round64: assumes "binary64 r" shows "round64 r = Fin r"
proof -
  from assms obtain m k where mk: "r = of_int m * pow2 k" "0 \<le> m" "m < 2 ^ 53" "- 1074 \<le> k"
    and top: "r < pow2 1024"
    unfolding binary64_def by blast
  show ?thesis
  proof (cases "m = 0")
    case True
    with mk(1) show ?thesis by simp
  next
    case False
    with mk(2) have "0 < m" by simp
    from round64_exact [OF this mk(3,4)] top mk(1) show ?thesis by simp
  qed
qed

lemma round64_binary64: "0 < x \<Longrightarrow> round64 x = Fin r \<Longrightarrow> binary64 r"
  unfolding binary64_def using round64_shape [of x r] by blast

lemma binary64_div_1024:
  assumes "binary64 r" "1024 \<le> r"
  shows "binary64 (r / 1024)"
proof -
  from assms(1) obtain m k where mk: "r = of_int m * pow2 k" "0 \<le> m" "m < 2 ^ 53" "- 1074 \<le> k"
    and top: "r < pow2 1024"
    unfolding binary64_def by blast
  have "real_of_int m < 2 ^ 53" using mk(3) by (rule real_of_int_less_power)
  then have "of_int m * pow2 k \<le> 2 ^ 53 * pow2 k" by (simp add: mult_right_mono)
  also have "\<dots> = pow2 (53 + k)" using power_times_pow2 [of 53 k] by simp
  finally have "pow2 10 \<le> pow2 (53 + k)" using assms(2) mk(1) by (simp add: pow2_numeral)
  then have k: "- 1074 \<le> k - 10" by simp
  have "r / 1024 = of_int m * pow2 (k - 10)"
    by (simp add: mk(1) pow2_diff pow2_numeral)
  moreover have "r / 1024 < pow2 1024" using top assms(2) by linarith
  ultimately show ?thesis unfolding binary64_def using mk(2,3) k by blast
qed

lemma float_div_1024_exact:
  assumes "binary64 r" "1024 \<le> r"
  shows "float_div (Fin r) 1024 = Fin (r / 1024)"
  using binary64_round64 [OF binary64_div_1024 [OF assms]] by (simp add: float_div_def)

lemma format_size_loop_spec:
  "binary64 r \<Longrightarrow>
     format_size_loop (unit # units) (Fin r)
       = (case spec_scale r unit (units @ [''PB'']) of
            (v, u) \<Rightarrow> format_f 2 (Fin v) @ ascii '' '' @ ascii u)"
proof (induction units arbitrary: r unit)
  case Nil
  then show ?case
    by (simp add: float_lt_def float_div_1024_exact ascii_def)
next
  case (Cons larger units)
  show ?case
  proof (cases "r < 1024")
    case True
    then show ?thesis by (simp add: float_lt_def)
  next
    case False
    then have r: "1024 \<le> r" by simp
    from Cons.IH [OF binary64_div_1024 [OF Cons.prems r]] False r
    show ?thesis
      by (simp add: float_lt_def float_div_1024_exact [OF Cons.prems r])
  qed
qed

section \<open>The numbers that round to a finite float\<close>

text \<open>
  A positive number rounds to a finite binary64 value exactly when it is below
  \<open>2^1024 - 2^970\<close>, half a spacing above the largest finite value.
\<close>

lemma round_half_even_below_half:
  assumes "x < of_int n - 1 / 2"
  shows "round_half_even x \<le> n - 1"
proof -
  have "x < of_int n" using assms by linarith
  then have f: "\<lfloor>x\<rfloor> \<le> n - 1" by (simp add: floor_less_iff)
  show ?thesis
  proof (cases "\<lfloor>x\<rfloor> = n - 1")
    case True
    then have "x - of_int \<lfloor>x\<rfloor> < 1 / 2" using assms by simp
    with True show ?thesis by (simp add: round_half_even_def Let_def)
  next
    case False
    with f have "\<lfloor>x\<rfloor> + 1 \<le> n - 1" by simp
    then show ?thesis by (simp add: round_half_even_def Let_def)
  qed
qed

lemma round_half_even_above_half:
  assumes "of_int n - 1 / 2 \<le> x" "even n"
  shows "n \<le> round_half_even x"
proof -
  have "of_int (n - 1) \<le> x" using assms(1) by simp
  then have f: "n - 1 \<le> \<lfloor>x\<rfloor>" by (simp add: le_floor_iff)
  show ?thesis
  proof (cases "\<lfloor>x\<rfloor> = n - 1")
    case True
    then have "1 / 2 \<le> x - of_int \<lfloor>x\<rfloor>" using assms(1) by simp
    moreover have "odd \<lfloor>x\<rfloor>" using True assms(2) by simp
    ultimately show ?thesis using True by (simp add: round_half_even_def Let_def)
  next
    case False
    with f have "n \<le> \<lfloor>x\<rfloor>" by simp
    then show ?thesis by (simp add: round_half_even_def Let_def)
  qed
qed

lemma round64_finite_iff:
  assumes x: "0 < x"
  shows "(\<exists>r. round64 x = Fin r) \<longleftrightarrow> x < pow2 1024 - pow2 970"
proof -
  define e' where "e' = max (floor_log2 x) (- 1022)"
  define q where "q = pow2 (e' - 52)"
  define m where "m = round_half_even (x / q)"
  have q: "0 < q" by (simp add: q_def)
  have r: "round64 x = (if pow2 1024 \<le> of_int m * q then PInf else Fin (of_int m * q))"
    by (simp add: round64_pos [OF x] Let_def e'_def [symmetric] q_def [symmetric]
        m_def [symmetric])
  have lo: "pow2 (floor_log2 x) \<le> x" by (rule floor_log2_lower [OF x])
  have up: "x < pow2 (floor_log2 x + 1)" by (rule floor_log2_upper [OF x])
  have q53: "q * 2 ^ 53 = pow2 (e' + 1)"
    using pow2_times_power [of "e' - 52" 53] by (simp add: q_def add.commute)
  have q52: "q * 2 ^ 52 = pow2 e'"
    using pow2_times_power [of "e' - 52" 52] by (simp add: q_def)
  have p1: "pow2 1 = 2" by (simp add: pow2_def)
  have h971: "pow2 971 = pow2 970 * 2" using pow2_add [of 970 1] by (simp add: p1)
  have h1024: "pow2 1024 = pow2 1023 * 2" using pow2_add [of 1023 1] by (simp add: p1)
  have h970: "pow2 970 \<le> pow2 1023" by simp
  show ?thesis
  proof (cases "x < pow2 1024 - pow2 970")
    case True
    have "0 < pow2 970" by (rule pow2_pos)
    with True lo have "pow2 (floor_log2 x) < pow2 1024" by linarith
    then have e: "e' \<le> 1023" by (simp add: e'_def)
    have "of_int m * q < pow2 1024"
    proof (cases "e' = 1023")
      case False
      with e have e2: "e' + 1 \<le> 1023" by simp
      have "pow2 (floor_log2 x + 1) \<le> pow2 (e' + 1)" by (simp add: e'_def)
      with up have "x < pow2 (e' + 1)" by linarith
      then have "x < q * 2 ^ 53" by (simp only: q53)
      then have "x / q < 2 ^ 53" using q by (simp add: field_simps)
      then have "x / q \<le> of_int (2 ^ 53)" by simp
      then have "m \<le> 2 ^ 53" unfolding m_def by (rule round_half_even_le)
      then have "real_of_int m \<le> real_of_int (2 ^ 53)" by (rule of_int_le_iff [THEN iffD2])
      then have "of_int m * q \<le> real_of_int (2 ^ 53) * q" using q by (intro mult_right_mono) simp_all
      also have "real_of_int (2 ^ 53) * q = pow2 (e' + 1)" using q53 by (simp add: mult.commute)
      also have "\<dots> \<le> pow2 1023" using e2 by simp
      also have "\<dots> < pow2 1024" by simp
      finally show ?thesis .
    next
      case True
      then have qv: "q = pow2 971" by (simp add: q_def)
      have t: "pow2 1024 = q * 2 ^ 53" using q53 True by simp
      have "x < q * 2 ^ 53 - q / 2"
        using \<open>x < pow2 1024 - pow2 970\<close> unfolding t by (simp add: qv h971)
      then have "x / q < 2 ^ 53 - 1 / 2" using q by (simp add: field_simps)
      then have "x / q < of_int (2 ^ 53) - 1 / 2" by simp
      then have "m \<le> 2 ^ 53 - 1" unfolding m_def by (rule round_half_even_below_half)
      then have "real_of_int m \<le> real_of_int (2 ^ 53 - 1)" by (rule of_int_le_iff [THEN iffD2])
      then have "of_int m * q \<le> real_of_int (2 ^ 53 - 1) * q"
        using q by (intro mult_right_mono) simp_all
      also have "\<dots> = q * 2 ^ 53 - q" by (simp add: algebra_simps)
      also have "\<dots> < q * 2 ^ 53" using q by simp
      finally show ?thesis by (simp only: t)
    qed
    with r True show ?thesis by simp
  next
    case False
    then have big: "pow2 1024 - pow2 970 \<le> x" by simp
    have "pow2 1023 \<le> pow2 1024 - pow2 970" using h970 by (simp add: h1024)
    with big up have "pow2 1023 < pow2 (floor_log2 x + 1)" by linarith
    then have fl: "1023 \<le> floor_log2 x" by simp
    then have e: "e' = floor_log2 x" "1023 \<le> e'" by (simp_all add: e'_def)
    have "pow2 1024 \<le> of_int m * q"
    proof (cases "e' = 1023")
      case True
      then have qv: "q = pow2 971" by (simp add: q_def)
      have t: "pow2 1024 = q * 2 ^ 53" using q53 True by simp
      have "q * 2 ^ 53 - q / 2 \<le> x"
        using big unfolding t by (simp add: qv h971)
      then have "2 ^ 53 - 1 / 2 \<le> x / q" using q by (simp add: field_simps)
      then have "of_int (2 ^ 53) - 1 / 2 \<le> x / q" by simp
      then have "2 ^ 53 \<le> m" unfolding m_def by (rule round_half_even_above_half) simp
      then have "real_of_int (2 ^ 53) \<le> real_of_int m" by (rule of_int_le_iff [THEN iffD2])
      then have "real_of_int (2 ^ 53) * q \<le> of_int m * q"
        using q by (intro mult_right_mono) simp_all
      moreover have "real_of_int (2 ^ 53) * q = pow2 1024" unfolding t by simp
      ultimately show ?thesis by simp
    next
      case False
      with e(2) have e3: "1024 \<le> e'" by simp
      have "pow2 e' \<le> x" using lo e(1) by simp
      then have "q * 2 ^ 52 \<le> x" by (simp only: q52)
      then have "2 ^ 52 \<le> x / q" using q by (simp add: field_simps)
      then have "of_int (2 ^ 52) \<le> x / q" by simp
      then have "2 ^ 52 \<le> m" unfolding m_def by (rule round_half_even_ge)
      then have "real_of_int (2 ^ 52) \<le> real_of_int m" by (rule of_int_le_iff [THEN iffD2])
      then have "real_of_int (2 ^ 52) * q \<le> of_int m * q"
        using q by (intro mult_right_mono) simp_all
      moreover have "real_of_int (2 ^ 52) * q = pow2 e'" using q52 by (simp add: mult.commute)
      moreover have "pow2 1024 \<le> pow2 e'" using e3 by simp
      ultimately show ?thesis by linarith
    qed
    with r False show ?thesis by simp
  qed
qed

section \<open>Formatting a size\<close>

lemma digits_chars: "c \<in> set (digits n) \<Longrightarrow> 48 \<le> c \<and> c \<le> 57"
proof (induction n rule: digits.induct)
  case (1 n)
  show ?case
  proof (cases "n < 10")
    case True
    with "1.prems" show ?thesis by (simp add: digits.simps [of n])
  next
    case False
    with "1.prems" have "c \<in> set (digits (n div 10)) \<or> c = 48 + n mod 10"
      by (auto simp add: digits.simps [of n])
    then show ?thesis
    proof
      assume "c \<in> set (digits (n div 10))"
      with "1.IH" False show ?thesis by simp
    next
      assume "c = 48 + n mod 10"
      moreover have "n mod 10 < 10" by simp
      ultimately show ?thesis by linarith
    qed
  qed
qed

lemma digits_not_empty: "digits n \<noteq> []"
  by (simp add: digits.simps [of n])

lemma format_f_2_shape:
  assumes "0 \<le> v"
  shows "\<exists>i d1 d2. d1 < 10 \<and> d2 < 10 \<and> format_f 2 (Fin v) = digits i @ [46, 48 + d1, 48 + d2]"
proof -
  define n where "n = nat (round_half_even (v * 100))"
  have "format_f 2 (Fin v) = digits (n div 100) @ [46, 48 + n mod 100 div 10 mod 10, 48 + n mod 100 mod 10]"
    using assms by (simp add: format_f_def Let_def n_def frac_digits_2 ascii_def)
  moreover have "n mod 100 div 10 mod 10 < 10" "n mod 100 mod 10 < 10" by simp_all
  ultimately show ?thesis by blast
qed

lemma real_bound_of_int:
  "n < 2 ^ 1024 - 2 ^ 970 \<longleftrightarrow> real_of_int n < pow2 1024 - pow2 970"
proof -
  have "pow2 1024 - pow2 970 = real_of_int (2 ^ 1024 - 2 ^ 970)"
    by (simp add: pow2_numeral)
  then show ?thesis by (simp only: of_int_less_iff)
qed

lemma float_of_int_finite:
  assumes "0 < n" "n < 2 ^ 1024 - 2 ^ 970"
  shows "\<exists>r. float_of_int n = Inr (Fin r) \<and> round64 (of_int n) = Fin r \<and> binary64 r"
proof -
  have x: "0 < real_of_int n" using assms(1) by simp
  from assms(2) have "real_of_int n < pow2 1024 - pow2 970" by (simp only: real_bound_of_int)
  with round64_finite_iff [OF x] obtain r where r: "round64 (of_int n) = Fin r" by blast
  with round64_binary64 [OF x r] show ?thesis by (simp add: float_of_int_def)
qed

lemma format_size_overflow:
  assumes "2 ^ 1024 - 2 ^ 970 \<le> n"
  shows "format_size n = Inl OverflowError"
proof -
  have "(0::int) < 2 ^ 1024 - 2 ^ 970" by simp
  with assms have n: "0 < n" by linarith
  then have x: "0 < real_of_int n" by simp
  from assms have "\<not> real_of_int n < pow2 1024 - pow2 970"
    by (simp only: real_bound_of_int [symmetric])
  with round64_finite_iff [OF x] have "\<nexists>r. round64 (of_int n) = Fin r" by simp
  then have "float_of_int n = Inl OverflowError"
    by (cases "round64 (of_int n)") (simp_all add: float_of_int_def)
  with n show ?thesis by (simp add: format_size_def)
qed

lemma format_size_spec:
  assumes "0 < n" "float_of_int n = Inr (Fin r)"
  shows "format_size n
      = Inr (case spec_scale r ''B'' [''KB'', ''MB'', ''GB'', ''TB'', ''PB''] of
               (v, u) \<Rightarrow> format_f 2 (Fin v) @ ascii '' '' @ ascii u)"
proof -
  have x: "0 < real_of_int n" using assms(1) by simp
  from assms(2) have r: "round64 (of_int n) = Fin r"
    by (simp add: float_of_int_def split: pyfloat.splits)
  have b: "binary64 r" by (rule round64_binary64 [OF x r])
  show ?thesis
  proof (cases "n < 1024")
    case True
    then have "n < 2 ^ 53" by simp
    with assms(1) r have "r = of_int n" by (simp add: round64_of_int)
    with True assms show ?thesis by (simp add: format_size_def)
  next
    case False
    then have "real_of_int 1024 \<le> real_of_int n" by (simp only: of_int_le_iff)
    from round64_ge_int [OF _ _ this r] have r1024: "1024 \<le> r" by simp
    from format_size_loop_spec [OF binary64_div_1024 [OF b r1024], of "''KB''" "[''MB'', ''GB'', ''TB'']"]
    show ?thesis
      using False assms r1024 by (simp add: format_size_def float_div_1024_exact [OF b r1024])
  qed
qed

text \<open>
  A byte count of \<open>2^1024\<close> is not formatted: the conversion to a float raises (claim C4 as
  stated).
\<close>

theorem format_size_too_large: "format_size (2 ^ 1024) = Inl OverflowError"
  by (rule format_size_overflow) simp

text \<open>
  Claim C4, amended. \<open>format_size 0\<close> is \<open>0 B\<close>. A byte count \<open>n\<close> with
  \<open>0 < n < 2^1024 - 2^970\<close> converts to a float \<open>r\<close> (\<open>n\<close> itself below \<open>2^53\<close>) and is
  formatted as the value and the unit that the rule of the specification reaches from \<open>r\<close>
  and \<open>B\<close> through \<open>KB\<close>, \<open>MB\<close>, \<open>GB\<close>, \<open>TB\<close> and \<open>PB\<close>, every division by 1024 being
  exact; the value is printed with a point and exactly two decimals. From \<open>2^1024 - 2^970\<close>
  on the conversion raises \<open>OverflowError\<close>.
\<close>

theorem format_size_rule:
  "format_size 0 = Inr (ascii ''0 B'')
   \<and> (0 < n \<and> n < 2 ^ 1024 - 2 ^ 970 \<longrightarrow>
        (\<exists>r. float_of_int n = Inr (Fin r)
           \<and> (n < 2 ^ 53 \<longrightarrow> r = of_int n)
           \<and> format_size n
               = Inr (case spec_scale r ''B'' [''KB'', ''MB'', ''GB'', ''TB'', ''PB''] of
                        (v, u) \<Rightarrow> format_f 2 (Fin v) @ ascii '' '' @ ascii u)))
   \<and> (2 ^ 1024 - 2 ^ 970 \<le> n \<longrightarrow> format_size n = Inl OverflowError)
   \<and> (0 \<le> v \<longrightarrow>
        (\<exists>i d1 d2. d1 < 10 \<and> d2 < 10
           \<and> format_f 2 (Fin v) = digits i @ [46, 48 + d1, 48 + d2]
           \<and> digits i \<noteq> [] \<and> (\<forall>c\<in>set (digits i). 48 \<le> c \<and> c \<le> 57)))
   \<and> format_size 1023 = Inr (ascii ''1023.00 B'')
   \<and> format_size 1024 = Inr (ascii ''1.00 KB'')
   \<and> format_size (1024 * 1024) = Inr (ascii ''1.00 MB'')"
proof -
  have a: "format_size 0 = Inr (ascii ''0 B'')" by (simp add: format_size_def)
  have b: "0 < n \<and> n < 2 ^ 1024 - 2 ^ 970 \<longrightarrow>
        (\<exists>r. float_of_int n = Inr (Fin r)
           \<and> (n < 2 ^ 53 \<longrightarrow> r = of_int n)
           \<and> format_size n
               = Inr (case spec_scale r ''B'' [''KB'', ''MB'', ''GB'', ''TB'', ''PB''] of
                        (v, u) \<Rightarrow> format_f 2 (Fin v) @ ascii '' '' @ ascii u))"
  proof
    assume n: "0 < n \<and> n < 2 ^ 1024 - 2 ^ 970"
    then obtain r where r: "float_of_int n = Inr (Fin r)" "round64 (of_int n) = Fin r"
      using float_of_int_finite [of n] by blast
    have "n < 2 ^ 53 \<longrightarrow> r = of_int n" using n r(2) by (auto simp add: round64_of_int)
    with r(1) format_size_spec [OF _ r(1)] n
    show "\<exists>r. float_of_int n = Inr (Fin r)
           \<and> (n < 2 ^ 53 \<longrightarrow> r = of_int n)
           \<and> format_size n
               = Inr (case spec_scale r ''B'' [''KB'', ''MB'', ''GB'', ''TB'', ''PB''] of
                        (v, u) \<Rightarrow> format_f 2 (Fin v) @ ascii '' '' @ ascii u)"
      by blast
  qed
  have c: "2 ^ 1024 - 2 ^ 970 \<le> n \<longrightarrow> format_size n = Inl OverflowError"
    using format_size_overflow by blast
  have d: "0 \<le> v \<longrightarrow>
        (\<exists>i d1 d2. d1 < 10 \<and> d2 < 10
           \<and> format_f 2 (Fin v) = digits i @ [46, 48 + d1, 48 + d2]
           \<and> digits i \<noteq> [] \<and> (\<forall>c\<in>set (digits i). 48 \<le> c \<and> c \<le> 57))"
    using format_f_2_shape [of v] digits_chars digits_not_empty by blast
  have e: "format_size 1023 = Inr (ascii ''1023.00 B'')"
    by (simp add: format_size_def float_of_int_def format_f_def frac_digits_2 digits.simps
        ascii_def)
  have f: "format_size 1024 = Inr (ascii ''1.00 KB'')"
    using format_size_spec [of 1024 1024]
    by (simp add: float_of_int_def format_f_def frac_digits_2 digits.simps ascii_def)
  have g: "format_size (1024 * 1024) = Inr (ascii ''1.00 MB'')"
    using format_size_spec [of "1024 * 1024" "1024 * 1024"]
    by (simp add: float_of_int_def format_f_def frac_digits_2 digits.simps ascii_def)
  from a b c d e f g show ?thesis by blast
qed

theorem format_size_rule_witness:
  "(0::int) < 1536 \<and> (1536::int) < 2 ^ 1024 - 2 ^ 970
   \<and> format_size 1536 = Inr (ascii ''1.50 KB'')
   \<and> format_f 2 (Fin (3 / 2)) = digits 1 @ [46, 48 + 5, 48 + 0]
   \<and> (2::int) ^ 1024 - 2 ^ 970 \<le> 2 ^ 1030
   \<and> format_size (2 ^ 1030) = Inl OverflowError"
proof -
  have h: "(0::int) < 1536 \<and> (1536::int) < 2 ^ 1024 - 2 ^ 970" by simp
  have g: "(2::int) ^ 1024 - 2 ^ 970 \<le> 2 ^ 1030" by simp
  note t = format_size_rule [of 1536 "3 / 2"]
  from t h obtain r where r: "float_of_int 1536 = Inr (Fin r)"
    "format_size 1536
       = Inr (case spec_scale r ''B'' [''KB'', ''MB'', ''GB'', ''TB'', ''PB''] of
                (v, u) \<Rightarrow> format_f 2 (Fin v) @ ascii '' '' @ ascii u)"
    by blast
  from r(1) have "r = 1536" by (simp add: float_of_int_def)
  with r(2) have 1: "format_size 1536 = Inr (ascii ''1.50 KB'')"
    by (simp add: format_f_def frac_digits_2 digits.simps ascii_def)
  have 2: "format_f 2 (Fin (3 / 2)) = digits 1 @ [46, 48 + 5, 48 + 0]"
    by (simp add: format_f_def frac_digits_2 digits.simps ascii_def)
  from format_size_rule [of "2 ^ 1030" 0] g
  have 3: "format_size (2 ^ 1030) = Inl OverflowError" by blast
  from h g 1 2 3 show ?thesis by blast
qed

section \<open>Projects without quota\<close>

lemma format_size_defined:
  assumes "0 \<le> n" "n < 2 ^ 1024 - 2 ^ 970"
  shows "\<exists>s. format_size n = Inr s"
proof (cases "n = 0")
  case True
  then show ?thesis by (simp add: format_size_def)
next
  case False
  with assms(1) have n: "0 < n" by simp
  from float_of_int_finite [OF n assms(2)] obtain r where "float_of_int n = Inr (Fin r)" by blast
  from format_size_spec [OF n this] show ?thesis by blast
qed

text \<open>
  Claim C2. For a project whose quota is at most 0 no percentage is computed: the percentage
  passed on is the constant 0 and the quota text is the unlimited literal, whatever the used
  bytes are, and no run ends in \<open>ZeroDivisionError\<close>. The report has the unlimited literal
  in the quota line and in the usage line, and between the count line and the details there is
  only that usage line: neither a bar nor a warning line. The used space is formatted, and the
  report gets that far, whenever the used space is below \<open>2^1024 - 2^970\<close>; a larger one
  does not convert to a float and the run stops after the quota line.
\<close>

theorem print_project_usage_unlimited_quota:
  "storage_quota_bytes p \<le> 0 \<Longrightarrow>
     percent_and_quota_display total_used (storage_quota_bytes p) = Inr (Fin 0, text_unlimited)
     \<and> usage_lines (storage_quota_bytes p) usage_percent
         = ([label_usage_percent @ text_unlimited], None)
     \<and> snd (print_project_usage p info show_details) \<noteq> Some ZeroDivisionError
     \<and> take 3 (fst (print_project_usage p info show_details))
         = [0xA # separator_line,
            label_project_name @ color_green @ display_name p @ reset_code @ ascii '' (''
              @ project_key p @ ascii '')'',
            label_quota @ text_unlimited]
     \<and> (case format_size (total_used_bytes (calculate_project_usage (project_key p) info)) of
           Inl e \<Rightarrow> length (fst (print_project_usage p info show_details)) = 3
                   \<and> snd (print_project_usage p info show_details) = Some e
         | Inr used \<Rightarrow>
             fst (print_project_usage p info show_details)
               = take 3 (fst (print_project_usage p info show_details))
                 @ [label_used @ used,
                    label_repo_count
                      @ digits (repo_count (calculate_project_usage (project_key p) info)),
                    label_usage_percent @ text_unlimited]
                 @ fst (details_lines (storage_quota_bytes p) show_details
                          (repositories (calculate_project_usage (project_key p) info))))
     \<and> (0 \<le> total_used_bytes (calculate_project_usage (project_key p) info)
          \<and> total_used_bytes (calculate_project_usage (project_key p) info) < 2 ^ 1024 - 2 ^ 970
          \<longrightarrow> (\<exists>used.
                format_size (total_used_bytes (calculate_project_usage (project_key p) info))
                  = Inr used))"
proof -
  assume q: "storage_quota_bytes p \<le> 0"
  have a: "percent_and_quota_display total_used (storage_quota_bytes p) = Inr (Fin 0, text_unlimited)"
    using q by (simp add: percent_and_quota_display_def)
  have b: "usage_lines (storage_quota_bytes p) usage_percent
         = ([label_usage_percent @ text_unlimited], None)"
    using q by (simp add: usage_lines_def)
  have c: "snd (print_project_usage p info show_details) \<noteq> Some ZeroDivisionError"
    using details_lines_unlimited_error [OF q]
    by (auto simp add: print_project_usage_unlimited [OF q] Let_def split: sum.splits
        dest: format_size_error)
  have d: "take 3 (fst (print_project_usage p info show_details))
         = [0xA # separator_line,
            label_project_name @ color_green @ display_name p @ reset_code @ ascii '' (''
              @ project_key p @ ascii '')'',
            label_quota @ text_unlimited]"
    by (simp add: print_project_usage_unlimited [OF q] Let_def split: sum.splits)
  have e: "(case format_size (total_used_bytes (calculate_project_usage (project_key p) info)) of
           Inl e \<Rightarrow> length (fst (print_project_usage p info show_details)) = 3
                   \<and> snd (print_project_usage p info show_details) = Some e
         | Inr used \<Rightarrow>
             fst (print_project_usage p info show_details)
               = take 3 (fst (print_project_usage p info show_details))
                 @ [label_used @ used,
                    label_repo_count
                      @ digits (repo_count (calculate_project_usage (project_key p) info)),
                    label_usage_percent @ text_unlimited]
                 @ fst (details_lines (storage_quota_bytes p) show_details
                          (repositories (calculate_project_usage (project_key p) info))))"
    by (simp add: print_project_usage_unlimited [OF q] Let_def split: sum.splits)
  have f: "0 \<le> total_used_bytes (calculate_project_usage (project_key p) info)
          \<and> total_used_bytes (calculate_project_usage (project_key p) info) < 2 ^ 1024 - 2 ^ 970
          \<longrightarrow> (\<exists>used.
                format_size (total_used_bytes (calculate_project_usage (project_key p) info))
                  = Inr used)"
    using format_size_defined by blast
  from a b c d e f show ?thesis by blast
qed

theorem print_project_usage_unlimited_quota_witness:
  "storage_quota_bytes example_unlimited \<le> 0
   \<and> print_project_usage example_unlimited example_info True
     = ([0xA # separator_line,
         label_project_name @ color_green @ ascii ''P2'' @ reset_code @ ascii '' (p2)'',
         label_quota @ text_unlimited,
         label_used @ ascii ''0 B'',
         label_repo_count @ ascii ''0'',
         label_usage_percent @ text_unlimited], None)"
proof -
  have q: "storage_quota_bytes example_unlimited \<le> 0"
    by (simp add: example_unlimited_def)
  have u: "calculate_project_usage (project_key example_unlimited) example_info
      = \<lparr>repositories = [], total_used_bytes = 0, repo_count = 0\<rparr>"
    by (simp add: calculate_project_usage_def example_unlimited_def example_info_def
        example_repo_def example_total_row_def ascii_def)
  have f: "format_size 0 = Inr (ascii ''0 B'')"
    by (simp add: format_size_def)
  have s: "snd (print_project_usage example_unlimited example_info True) = None"
    by (simp add: print_project_usage_unlimited [OF q] u f details_lines_def)
  note t = print_project_usage_unlimited_quota [OF q, of 0 "Fin 0" example_info True]
  from t have t3: "take 3 (fst (print_project_usage example_unlimited example_info True))
      = [0xA # separator_line,
         label_project_name @ color_green @ display_name example_unlimited @ reset_code
           @ ascii '' ('' @ project_key example_unlimited @ ascii '')'',
         label_quota @ text_unlimited]"
    by blast
  from t have "case format_size (total_used_bytes
        (calculate_project_usage (project_key example_unlimited) example_info)) of
      Inl e \<Rightarrow> length (fst (print_project_usage example_unlimited example_info True)) = 3
                   \<and> snd (print_project_usage example_unlimited example_info True) = Some e
    | Inr used \<Rightarrow>
        fst (print_project_usage example_unlimited example_info True)
          = take 3 (fst (print_project_usage example_unlimited example_info True))
            @ [label_used @ used,
               label_repo_count
                 @ digits (repo_count (calculate_project_usage (project_key example_unlimited)
                      example_info)),
               label_usage_percent @ text_unlimited]
            @ fst (details_lines (storage_quota_bytes example_unlimited) True
                     (repositories (calculate_project_usage (project_key example_unlimited)
                        example_info)))"
    by blast
  then have "fst (print_project_usage example_unlimited example_info True)
     = [0xA # separator_line,
         label_project_name @ color_green @ display_name example_unlimited @ reset_code
           @ ascii '' ('' @ project_key example_unlimited @ ascii '')'',
         label_quota @ text_unlimited]
        @ [label_used @ ascii ''0 B'', label_repo_count @ digits 0,
           label_usage_percent @ text_unlimited]
        @ fst (details_lines (storage_quota_bytes example_unlimited) True [])"
    unfolding t3 u by (simp add: f)
  then have "fst (print_project_usage example_unlimited example_info True)
     = [0xA # separator_line,
         label_project_name @ color_green @ ascii ''P2'' @ reset_code @ ascii '' (p2)'',
         label_quota @ text_unlimited,
         label_used @ ascii ''0 B'',
         label_repo_count @ ascii ''0'',
         label_usage_percent @ text_unlimited]"
    by (simp add: details_lines_def digits.simps example_unlimited_def ascii_def)
  with s q show ?thesis by (simp add: prod_eq_iff)
qed

text \<open>
  Claim C10. For a project whose quota is at most 0 the colour selector is given the
  percentage 0, so the name line carries the green code, whatever the storage records are.
\<close>

theorem print_project_usage_unlimited_green:
  "storage_quota_bytes p \<le> 0 \<Longrightarrow>
     (\<exists>quota_display.
        percent_and_quota_display
          (total_used_bytes (calculate_project_usage (project_key p) info))
          (storage_quota_bytes p) = Inr (Fin 0, quota_display))
     \<and> get_project_name_color (Fin 0) = color_green
     \<and> 3 \<le> length (fst (print_project_usage p info show_details))
     \<and> fst (print_project_usage p info show_details) ! 1
         = label_project_name @ color_green @ display_name p @ reset_code @ ascii '' (''
             @ project_key p @ ascii '')''
     \<and> color_green \<noteq> color_yellow \<and> color_green \<noteq> color_red"
proof -
  assume q: "storage_quota_bytes p \<le> 0"
  have "color_green \<noteq> color_yellow \<and> color_green \<noteq> color_red"
    by (simp add: color_green_def color_yellow_def color_red_def ascii_def)
  moreover have "get_project_name_color (Fin 0) = color_green"
    by (simp add: get_project_name_color_def float_gt_def)
  moreover have "3 \<le> length (fst (print_project_usage p info show_details))
     \<and> fst (print_project_usage p info show_details) ! 1
         = label_project_name @ color_green @ display_name p @ reset_code @ ascii '' (''
             @ project_key p @ ascii '')''"
    by (simp add: print_project_usage_unlimited [OF q] Let_def split: sum.splits)
  ultimately show ?thesis
    using q by (simp add: percent_and_quota_display_def)
qed

theorem print_project_usage_unlimited_green_witness:
  "storage_quota_bytes (example_limited\<lparr>storage_quota_bytes := - 1\<rparr>) \<le> 0
   \<and> total_used_bytes (calculate_project_usage (ascii ''proj1'') example_info) = 900
   \<and> fst (print_project_usage (example_limited\<lparr>storage_quota_bytes := - 1\<rparr>) example_info False) ! 1
      = label_project_name @ color_green @ ascii ''Project One'' @ reset_code @ ascii '' (proj1)''"
proof -
  have q: "storage_quota_bytes (example_limited\<lparr>storage_quota_bytes := - 1\<rparr>) \<le> 0"
    by simp
  have u: "total_used_bytes (calculate_project_usage (ascii ''proj1'') example_info) = 900"
    by (simp add: calculate_project_usage_def example_info_def example_repo_def
        example_total_row_def ascii_def used_space_def)
  show ?thesis
    using print_project_usage_unlimited_green [OF q, of example_info False] u
    by (simp add: example_limited_def ascii_def)
qed

end
